theory Spec2Isabelle
  imports Main
begin

section \<open>The Epsagon tracer (epsagon/tracer.go)\<close>

text \<open>
  The tracer keeps a process-wide instance \<open>globalTracer\<close>. Every instance owns two
  buffers and is served by one background goroutine executing \<open>Run\<close>. The caller hands
  events, exceptions and the stop command to that goroutine over unbuffered channels, so
  every hand-over is a rendezvous: the send returns exactly when the goroutine, waiting in
  its \<open>select\<close>, has taken the value.

  The embedding makes the program points of the \<open>Run\<close> goroutines explicit. A public
  function is a function from the world in which it is called to the way the call ends;
  while the caller waits on a channel, the goroutine it waits for runs. The executions
  of one calling goroutine (calls one after the other) are the relation \<open>step\<close>; with
  several calling goroutines a call can also find a \<open>StopTracer\<close> of another one half
  way, the relation \<open>conc_step\<close>. The mutex of \<open>CreateTracer\<close> is held and released
  inside one call, which is one step here.
\<close>

subsection \<open>Data\<close>

text \<open>\<open>type Config struct\<close>.\<close>

record Config =
  ApplicationName :: string
  Token :: string
  CollectorURL :: string
  MetadataOnly :: bool
  Debug :: bool

text \<open>
  Events and exceptions are pointers to records of the protocol package; the tracer only
  stores and forwards them.
\<close>

type_synonym Event = nat
type_synonym Exception = nat

text \<open>\<open>protocol.Trace\<close>, with the fields that \<open>getTraceReader\<close> fills.\<close>

record Trace =
  AppName :: string
  TraceToken :: string
  Events :: "Event list"
  Exceptions :: "Exception list"
  Version :: string
  Platform :: string

text \<open>
  A channel of type \<open>chan struct{}\<close> on which nothing is ever sent (\<open>stopped\<close> and
  \<open>running\<close>): all that matters is whether it has been closed.
\<close>

datatype sigchan = Open | Closed

text \<open>The program points of the goroutine that executes \<open>Run\<close>.\<close>

datatype pc =
    Spawned          \<comment> \<open>\<open>go globalTracer.Run()\<close> has been executed, \<open>Run\<close> has not begun\<close>
  | AtSelect         \<comment> \<open>waiting in the \<open>select\<close> of the loop\<close>
  | Flushing         \<comment> \<open>the stop command taken, \<open>sendTraces\<close> under way, \<open>stopped\<close> still open\<close>
  | AtDefer          \<comment> \<open>\<open>close(tracer.stopped)\<close> done, the reset of \<open>running\<close> pending\<close>
  | Finished         \<comment> \<open>\<open>Run\<close> has returned\<close>

text \<open>
  \<open>type epsagonTracer struct\<close>. \<open>Config\<close> is a pointer: here the address of the
  caller's value in the store of configurations. The three data channels are unbuffered
  and hold nothing between two calls. \<open>task\<close> is the program point of the goroutine
  started for this instance.
\<close>

record epsagonTracer =
  Config :: nat
  events :: "Event list"
  exceptions :: "Exception list"
  stopped :: sigchan
  running :: sigchan
  task :: pc

text \<open>The response of the collector, as far as \<open>sendTraces\<close> looks at it.\<close>

record Response =
  StatusCode :: nat
  Body :: string

text \<open>One line of the process log, by the statement that writes it.\<close>

datatype log_entry =
    MarshalError string              \<comment> \<open>Epsagon: Encountered an error while marshaling the traces: err\<close>
  | SendError string string          \<comment> \<open>Error while sending traces, err, respBody\<close>
  | FinalTraces string               \<comment> \<open>Final Traces: traceJSON\<close>
  | DebugTokenFromEnv                \<comment> \<open>EPSAGON DEBUG: setting token from environment variable\<close>
  | DebugCollectorURL string         \<comment> \<open>EPSAGON DEBUG: setting collector url to url\<close>
  | AlreadyCreated                   \<comment> \<open>The tracer is already created\<close>
  | DebugCreated                     \<comment> \<open>EPSAGON DEBUG: Created a new tracer\<close>
  | DebugAddingEvent Event           \<comment> \<open>EPSAGON DEBUG: Adding event: event\<close>
  | NotInitialized                   \<comment> \<open>The tracer is not initialized!\<close>
  | DebugStarted                     \<comment> \<open>EPSAGON DEBUG: tracer started running\<close>
  | DebugStopsRunning                \<comment> \<open>EPSAGON DEBUG: tracer stops running, sending traces\<close>

text \<open>
  What lies outside the package: the environment variables, the version of the runtime,
  the JSON marshaler (\<open>Inl\<close> its error) and the HTTP client. \<open>Post url body\<close> is the pair
  \<open>(resp, err)\<close> that \<open>client.Post\<close> returns; a pointer that is \<open>nil\<close> is \<open>None\<close>.
\<close>

record extern =
  Getenv :: "string \<Rightarrow> string"
  RuntimeVersion :: string
  MarshalToString :: "Trace \<Rightarrow> string + string"
  Post :: "string \<Rightarrow> string \<Rightarrow> Response option \<times> string option"

text \<open>
  The state of the process: the store holding the \<open>Config\<close> values of the caller, every
  tracer instance allocated so far (an instance is named by its position), the variable
  \<open>globalTracer\<close>, the log and the HTTP requests made, each with its URL and its body.
\<close>

record world =
  configs :: "nat \<Rightarrow> Config"
  tracers :: "epsagonTracer list"
  globalTracer :: "nat option"
  logs :: "log_entry list"
  posts :: "(string \<times> string) list"

text \<open>
  How a call ends for the caller: it returns, it waits for ever on a channel, or the
  process dies of a panic that nothing recovers.
\<close>

datatype outcome = Returns world | Blocks world | Panics world

fun world_of :: "outcome \<Rightarrow> world" where
  "world_of (Returns w) = w"
| "world_of (Blocks w) = w"
| "world_of (Panics w) = w"

definition init_world :: "(nat \<Rightarrow> Config) \<Rightarrow> world" where
  "init_world cs = \<lparr>configs = cs, tracers = [], globalTracer = None, logs = [], posts = []\<rparr>"

definition println :: "log_entry \<Rightarrow> world \<Rightarrow> world" where
  "println l w = w\<lparr>logs := logs w @ [l]\<rparr>"

definition debugln :: "bool \<Rightarrow> log_entry \<Rightarrow> world \<Rightarrow> world" where
  "debugln d l w = (if d then println l w else w)"

definition upd_tracer :: "nat \<Rightarrow> (epsagonTracer \<Rightarrow> epsagonTracer) \<Rightarrow> world \<Rightarrow> world" where
  "upd_tracer i f w = w\<lparr>tracers := (tracers w)[i := f (tracers w ! i)]\<rparr>"

definition config_of :: "world \<Rightarrow> nat \<Rightarrow> Config" where
  "config_of w i = configs w (Config (tracers w ! i))"

subsection \<open>Lifecycle queries\<close>

definition isChannelPinged :: "sigchan \<Rightarrow> bool" where
  "isChannelPinged ch = (case ch of Closed \<Rightarrow> True | Open \<Rightarrow> False)"

definition Running :: "epsagonTracer \<Rightarrow> bool" where
  "Running t = isChannelPinged (running t)"

definition Stopped :: "epsagonTracer \<Rightarrow> bool" where
  "Stopped t = isChannelPinged (stopped t)"

subsection \<open>Configuration defaults\<close>

text \<open>
  \<open>fillConfigDefaults\<close> rewrites the configuration it is given a pointer to; the model
  returns the new value and the lines logged.
\<close>

definition fillConfigDefaults :: "(string \<Rightarrow> string) \<Rightarrow> Config \<Rightarrow> Config \<times> log_entry list" where
  "fillConfigDefaults getenv config =
    (let c1 = (if \<not> Debug config \<and> getenv ''EPSAGON_DEBUG'' = ''TRUE''
               then config\<lparr>Debug := True\<rparr> else config);
         c2 = (if length (Token c1) = 0 then c1\<lparr>Token := getenv ''EPSAGON_TOKEN''\<rparr> else c1);
         l2 = (if length (Token c1) = 0 \<and> Debug c1 then [DebugTokenFromEnv] else []);
         region = getenv ''AWS_REGION'';
         c3 = (if length (CollectorURL c2) = 0
               then (if length region \<noteq> 0
                     then c2\<lparr>CollectorURL := ''http://'' @ region @ ''.tc.epsagon.com''\<rparr>
                     else c2\<lparr>CollectorURL := ''http://us-east-1.tc.epsagon.com''\<rparr>)
               else c2);
         l3 = (if length (CollectorURL c2) = 0 \<and> Debug c2
               then [DebugCollectorURL (CollectorURL c3)] else [])
     in (c3, l2 @ l3))"

subsection \<open>Serialising and sending\<close>

definition trace_of :: "extern \<Rightarrow> world \<Rightarrow> nat \<Rightarrow> Trace" where
  "trace_of X w i =
    \<lparr>AppName = ApplicationName (config_of w i),
     TraceToken = Token (config_of w i),
     Events = events (tracers w ! i),
     Exceptions = exceptions (tracers w ! i),
     Version = ''0.0.1'',
     Platform = RuntimeVersion X\<rparr>"

text \<open>\<open>getTraceReader\<close>: the JSON text or the marshaler's error, and the world with the debug line.\<close>

definition getTraceReader :: "extern \<Rightarrow> world \<Rightarrow> nat \<Rightarrow> (string + string) \<times> world" where
  "getTraceReader X w i =
    (case MarshalToString X (trace_of X w i) of
       Inl err \<Rightarrow> (Inl err, w)
     | Inr traceJSON \<Rightarrow> (Inr traceJSON, debugln (Debug (config_of w i)) (FinalTraces traceJSON) w))"

text \<open>
  \<open>Body.Read(buf)\<close> fills at most \<open>len(buf)\<close> bytes of \<open>buf\<close>; the result is \<open>buf\<close>
  afterwards.
\<close>

definition Body_Read :: "string \<Rightarrow> string \<Rightarrow> string" where
  "Body_Read body buf = take (length buf) body @ drop (length body) buf"

text \<open>
  \<open>sendTraces\<close>. The flag of the result says that the goroutine panicked: in the branch
  \<open>err != nil\<close> the code reads \<open>resp.Body\<close>, a nil pointer dereference when \<open>resp\<close> is
  \<open>nil\<close>. The buffer \<open>respBody\<close> is declared without a length, so it is empty.
\<close>

definition sendTraces :: "extern \<Rightarrow> world \<Rightarrow> nat \<Rightarrow> world \<times> bool" where
  "sendTraces X w i =
    (case getTraceReader X w i of
       (Inl err, w1) \<Rightarrow> (println (MarshalError err) w1, False)
     | (Inr tracesReader, w1) \<Rightarrow>
         (let url = CollectorURL (config_of w1 i);
              w2 = w1\<lparr>posts := posts w1 @ [(url, tracesReader)]\<rparr>
          in case Post X url tracesReader of
               (resp, None) \<Rightarrow> (w2, False)
             | (None, Some err) \<Rightarrow> (w2, True)
             | (Some r, Some err) \<Rightarrow> (println (SendError err (Body_Read (Body r) [])) w2, False)))"

subsection \<open>The goroutine of \<open>Run\<close>\<close>

text \<open>
  From the start of \<open>Run\<close> to the \<open>select\<close>: the debug line, the test of \<open>Running()\<close>
  (which returns before any \<open>defer\<close> is registered), \<open>close(tracer.running)\<close>.
\<close>

definition Run_enter :: "world \<Rightarrow> nat \<Rightarrow> world" where
  "Run_enter w i =
    (let w1 = debugln (Debug (config_of w i)) DebugStarted w
     in if Running (tracers w1 ! i)
        then upd_tracer i (\<lambda>t. t\<lparr>task := Finished\<rparr>) w1
        else upd_tracer i (\<lambda>t. t\<lparr>running := Closed, task := AtSelect\<rparr>) w1)"

text \<open>The deferred function registered first and executed last: \<open>running\<close> is a new channel.\<close>

definition Run_exit :: "world \<Rightarrow> nat \<Rightarrow> world" where
  "Run_exit w i = upd_tracer i (\<lambda>t. t\<lparr>running := Open, task := Finished\<rparr>) w"

text \<open>What the \<open>select\<close> of the loop can receive.\<close>

datatype msg = EventMsg Event | ExceptionMsg Exception | CloseCmd

text \<open>
  The receive of the \<open>select\<close>, for a goroutine waiting there: an event or an exception
  is appended to its buffer and the loop goes round; the stop command ends the loop.
\<close>

definition Run_select :: "world \<Rightarrow> nat \<Rightarrow> msg \<Rightarrow> world" where
  "Run_select w i m =
    (case m of
       EventMsg event \<Rightarrow> upd_tracer i (\<lambda>t. t\<lparr>events := events t @ [event]\<rparr>) w
     | ExceptionMsg exception \<Rightarrow>
         upd_tracer i (\<lambda>t. t\<lparr>exceptions := exceptions t @ [exception]\<rparr>) w
     | CloseCmd \<Rightarrow> upd_tracer i (\<lambda>t. t\<lparr>task := Flushing\<rparr>) w)"

text \<open>
  What the goroutine does once it has taken the stop command: the debug line,
  \<open>sendTraces\<close>, and the return from \<open>Run\<close>. \<open>close(tracer.stopped)\<close> is deferred: it
  happens only now, after \<open>sendTraces\<close>, and it happens also when \<open>sendTraces\<close> panics. A
  panicking goroutine executes both deferred calls and then ends the process: the flag of
  the result.
\<close>

definition Run_flush :: "extern \<Rightarrow> world \<Rightarrow> nat \<Rightarrow> world \<times> bool" where
  "Run_flush X w i =
    (let w1 = debugln (Debug (config_of w i)) DebugStopsRunning w;
         (w2, panicked) = sendTraces X w1 i;
         w3 = upd_tracer i (\<lambda>t. t\<lparr>stopped := Closed, task := AtDefer\<rparr>) w2
     in if panicked then (Run_exit w3 i, True) else (w3, False))"

text \<open>
  A step the goroutine of instance \<open>i\<close> can take by itself; the flag says that it
  panicked.
\<close>

definition goroutine_step :: "extern \<Rightarrow> world \<Rightarrow> nat \<Rightarrow> world \<times> bool" where
  "goroutine_step X w i =
    (case task (tracers w ! i) of
       Spawned \<Rightarrow> (Run_enter w i, False)
     | AtSelect \<Rightarrow> (w, False)
     | Flushing \<Rightarrow> Run_flush X w i
     | AtDefer \<Rightarrow> (Run_exit w i, False)
     | Finished \<Rightarrow> (w, False))"

text \<open>
  A send on one of the channels of instance \<open>i\<close>. The sender waits until the goroutine is
  at its \<open>select\<close>: a goroutine not yet begun gets there by itself, one that has left the
  loop never receives and the sender waits for ever.
\<close>

definition await_select :: "world \<Rightarrow> nat \<Rightarrow> world" where
  "await_select w i = (if task (tracers w ! i) = Spawned then Run_enter w i else w)"

definition send :: "extern \<Rightarrow> world \<Rightarrow> nat \<Rightarrow> msg \<Rightarrow> outcome" where
  "send X w i m =
    (let w1 = await_select w i
     in if task (tracers w1 ! i) = AtSelect then Returns (Run_select w1 i m) else Blocks w1)"

text \<open>
  The receive \<open><-tracer.stopped\<close>. It returns once the channel is closed: at once when
  it is closed already, after the flush when the goroutine is in it, and never when the
  goroutine is elsewhere with the channel open.
\<close>

definition await_stopped :: "extern \<Rightarrow> world \<Rightarrow> nat \<Rightarrow> outcome" where
  "await_stopped X w i =
    (if stopped (tracers w ! i) = Closed then Returns w
     else if task (tracers w ! i) = Flushing
     then (case Run_flush X w i of
             (w1, panicked) \<Rightarrow>
               if panicked then Panics w1
               else if stopped (tracers w1 ! i) = Closed then Returns w1 else Blocks w1)
     else Blocks w)"

subsection \<open>Methods of the instance\<close>

definition tracer_AddException :: "extern \<Rightarrow> world \<Rightarrow> nat \<Rightarrow> Exception \<Rightarrow> outcome" where
  "tracer_AddException X w i exception = send X w i (ExceptionMsg exception)"

definition tracer_AddEvent :: "extern \<Rightarrow> world \<Rightarrow> nat \<Rightarrow> Event \<Rightarrow> outcome" where
  "tracer_AddEvent X w i event =
    (case send X w i (EventMsg event) of
       Returns w1 \<Rightarrow> Returns (debugln (Debug (config_of w1 i)) (DebugAddingEvent event) w1)
     | other \<Rightarrow> other)"

text \<open>
  \<open>Stop\<close>: when \<open>stopped\<close> is closed it returns at once; otherwise it sends the stop
  command and then receives from \<open>stopped\<close>.
\<close>

definition tracer_Stop :: "extern \<Rightarrow> world \<Rightarrow> nat \<Rightarrow> outcome" where
  "tracer_Stop X w i =
    (case stopped (tracers w ! i) of
       Closed \<Rightarrow> Returns w
     | Open \<Rightarrow>
        (case send X w i CloseCmd of
           Returns w1 \<Rightarrow> await_stopped X w1 i
         | other \<Rightarrow> other))"

subsection \<open>The public functions\<close>

text \<open>The argument of \<open>CreateTracer\<close> is a pointer: \<open>None\<close> is \<open>nil\<close>.\<close>

definition CreateTracer :: "extern \<Rightarrow> world \<Rightarrow> nat option \<Rightarrow> outcome" where
  "CreateTracer X w config =
    (if globalTracer w \<noteq> None \<and> \<not> Stopped (tracers w ! the (globalTracer w))
     then Returns (println AlreadyCreated w)
     else case config of
       None \<Rightarrow> Panics w
     | Some a \<Rightarrow>
        (let (c, ls) = fillConfigDefaults (Getenv X) (configs w a);
             w1 = w\<lparr>configs := (configs w)(a := c), logs := logs w @ ls\<rparr>;
             w2 = w1\<lparr>tracers := tracers w1 @
                        [\<lparr>Config = a, events = [], exceptions = [],
                          stopped = Open, running = Open, task = Spawned\<rparr>],
                     globalTracer := Some (length (tracers w1))\<rparr>
         in Returns (debugln (Debug c) DebugCreated w2)))"

definition AddEvent :: "extern \<Rightarrow> world \<Rightarrow> Event \<Rightarrow> outcome" where
  "AddEvent X w event =
    (if globalTracer w = None \<or> Stopped (tracers w ! the (globalTracer w))
     then Returns (println NotInitialized w)
     else tracer_AddEvent X w (the (globalTracer w)) event)"

definition AddException :: "extern \<Rightarrow> world \<Rightarrow> Exception \<Rightarrow> outcome" where
  "AddException X w exception =
    (if globalTracer w = None \<or> Stopped (tracers w ! the (globalTracer w))
     then Returns (println NotInitialized w)
     else tracer_AddException X w (the (globalTracer w)) exception)"

definition StopTracer :: "extern \<Rightarrow> world \<Rightarrow> outcome" where
  "StopTracer X w =
    (if globalTracer w = None \<or> Stopped (tracers w ! the (globalTracer w))
     then Returns (println NotInitialized w)
     else tracer_Stop X w (the (globalTracer w)))"

text \<open>A call made in the world a previous call has left; nothing is called after a panic or a deadlock.\<close>

definition andThen :: "outcome \<Rightarrow> (world \<Rightarrow> outcome) \<Rightarrow> outcome" where
  "andThen r f = (case r of Returns w \<Rightarrow> f w | other \<Rightarrow> other)"

fun panics :: "outcome \<Rightarrow> bool" where
  "panics (Panics w) = True"
| "panics (Returns w) = False"
| "panics (Blocks w) = False"

text \<open>
  The world in which \<open>sendTraces\<close> is called once the stop command has been taken by the
  goroutine of instance \<open>i\<close>.
\<close>

definition flush_world :: "world \<Rightarrow> nat \<Rightarrow> world" where
  "flush_world w i =
    debugln (Debug (config_of w i)) DebugStopsRunning
      (upd_tracer i (\<lambda>t. t\<lparr>task := Flushing\<rparr>) (await_select w i))"

fun returns :: "outcome \<Rightarrow> bool" where
  "returns (Returns w) = True"
| "returns (Panics w) = False"
| "returns (Blocks w) = False"

fun blocks :: "outcome \<Rightarrow> bool" where
  "blocks (Blocks w) = True"
| "blocks (Returns w) = False"
| "blocks (Panics w) = False"

text \<open>The log lines that report a failed flush.\<close>

fun is_failure :: "log_entry \<Rightarrow> bool" where
  "is_failure (MarshalError err) = True"
| "is_failure (SendError err body) = True"
| "is_failure other = False"

text \<open>The error that such a line reports.\<close>

fun failure_text :: "log_entry \<Rightarrow> string" where
  "failure_text (MarshalError err) = err"
| "failure_text (SendError err body) = err"
| "failure_text other = []"

subsection \<open>Executions\<close>

text \<open>
  One step of the process with one calling goroutine: a goroutine of some instance takes
  a step of its own without panicking, the caller writes to its \<open>Config\<close> values (it
  holds the pointers), or the caller makes a call that returns.
\<close>

inductive step :: "extern \<Rightarrow> world \<Rightarrow> world \<Rightarrow> bool" for X :: extern where
  goroutine: "i < length (tracers w) \<Longrightarrow> goroutine_step X w i = (w', False) \<Longrightarrow> step X w w'"
| caller_write: "step X w (w\<lparr>configs := cs\<rparr>)"
| create: "CreateTracer X w c = Returns w' \<Longrightarrow> step X w w'"
| add_event: "AddEvent X w e = Returns w' \<Longrightarrow> step X w w'"
| add_exception: "AddException X w x = Returns w' \<Longrightarrow> step X w w'"
| stop: "StopTracer X w = Returns w' \<Longrightarrow> step X w w'"

inductive reachable :: "extern \<Rightarrow> world \<Rightarrow> bool" for X :: extern where
  start: "reachable X (init_world cs)"
| later: "reachable X w \<Longrightarrow> step X w w' \<Longrightarrow> reachable X w'"

text \<open>
  With several calling goroutines a world is seen also while one of them is inside
  \<open>StopTracer\<close>: it has passed the test of \<open>Stopped()\<close>, its stop command has been taken
  and it waits for \<open>stopped\<close>, which the goroutine of the instance closes by a later step
  of its own, after \<open>sendTraces\<close>.
\<close>

inductive conc_step :: "extern \<Rightarrow> world \<Rightarrow> world \<Rightarrow> bool" for X :: extern where
  one_caller: "step X w w' \<Longrightarrow> conc_step X w w'"
| stop_taken: "globalTracer w = Some g \<Longrightarrow> \<not> Stopped (tracers w ! g) \<Longrightarrow>
               send X w g CloseCmd = Returns w' \<Longrightarrow> conc_step X w w'"

inductive conc_reachable :: "extern \<Rightarrow> world \<Rightarrow> bool" for X :: extern where
  conc_start: "conc_reachable X (init_world cs)"
| conc_later: "conc_reachable X w \<Longrightarrow> conc_step X w w' \<Longrightarrow> conc_reachable X w'"

text \<open>The two flags of an instance at each program point of its goroutine.\<close>

definition tracer_ok :: "epsagonTracer \<Rightarrow> bool" where
  "tracer_ok t =
    (case task t of
       Spawned \<Rightarrow> running t = Open \<and> stopped t = Open
     | AtSelect \<Rightarrow> running t = Closed \<and> stopped t = Open
     | Flushing \<Rightarrow> running t = Closed \<and> stopped t = Open
     | AtDefer \<Rightarrow> running t = Closed \<and> stopped t = Closed
     | Finished \<Rightarrow> running t = Open \<and> stopped t = Closed)"

definition world_ok :: "world \<Rightarrow> bool" where
  "world_ok w =
    ((\<forall>i < length (tracers w). tracer_ok (tracers w ! i)) \<and>
     (case globalTracer w of None \<Rightarrow> True | Some g \<Rightarrow> g < length (tracers w)))"

text \<open>
  No instance disappears between two worlds and none that is stopped becomes unstopped.
\<close>

definition keeps_stopped :: "world \<Rightarrow> world \<Rightarrow> bool" where
  "keeps_stopped w w' =
    (length (tracers w) \<le> length (tracers w') \<and>
     (\<forall>i < length (tracers w). stopped (tracers w ! i) = Closed \<longrightarrow> stopped (tracers w' ! i) = Closed))"

text \<open>The call sequence of one session, with the caller's configuration at address \<open>a\<close>.\<close>

definition scenario :: "extern \<Rightarrow> world \<Rightarrow> nat \<Rightarrow> Event \<Rightarrow> Event \<Rightarrow> Exception \<Rightarrow> outcome" where
  "scenario X w a e1 e2 x1 =
    andThen (andThen (andThen (andThen
      (CreateTracer X w (Some a))
      (\<lambda>w. AddEvent X w e1))
      (\<lambda>w. AddEvent X w e2))
      (\<lambda>w. AddException X w x1))
      (StopTracer X)"

text \<open>No flush is under way: the state between the calls of one calling goroutine.\<close>

definition world_idle :: "world \<Rightarrow> bool" where
  "world_idle w = (\<forall>i < length (tracers w). task (tracers w ! i) \<noteq> Flushing)"

text \<open>The goroutine of an instance has not taken a stop command: it receives what is sent to it.\<close>

definition at_loop :: "epsagonTracer \<Rightarrow> bool" where
  "at_loop t = (task t = Spawned \<and> running t = Open \<or> task t = AtSelect \<and> running t = Closed)"

subsection \<open>Concrete surroundings\<close>

text \<open>
  Closed inputs on which the model is run: two configurations, surroundings with no
  environment variable set, and the worlds after \<open>CreateTracer\<close>, after \<open>StopTracer\<close>
  after the last step of the goroutine, and in the middle of a stop.
\<close>

definition svc_config :: Config where
  "svc_config = \<lparr>ApplicationName = ''svc'', Token = ''t1'', CollectorURL = ''http://example'',
                 MetadataOnly = False, Debug = False\<rparr>"

definition empty_config :: Config where
  "empty_config = \<lparr>ApplicationName = ''svc'', Token = [], CollectorURL = [],
                   MetadataOnly = False, Debug = False\<rparr>"

text \<open>No variable set, a marshaler that answers a fixed text, and a transport that gives the response \<open>r\<close>.\<close>

definition ext_with :: "(Trace \<Rightarrow> string + string) \<Rightarrow> Response option \<times> string option \<Rightarrow> extern" where
  "ext_with m r = \<lparr>Getenv = (\<lambda>v. []), RuntimeVersion = ''go1.10'', MarshalToString = m,
                   Post = (\<lambda>url body. r)\<rparr>"

definition marshal_ok :: "Trace \<Rightarrow> string + string" where
  "marshal_ok t = Inr ''{}''"

definition marshal_fails :: "Trace \<Rightarrow> string + string" where
  "marshal_fails t = Inl ''repeated field Events has nil element''"

definition created_world :: "extern \<Rightarrow> world" where
  "created_world X = world_of (CreateTracer X (init_world (\<lambda>a. svc_config)) (Some 0))"

definition stopped_world :: "extern \<Rightarrow> world" where
  "stopped_world X = world_of (StopTracer X (created_world X))"

definition ext_marshal_fails :: extern where
  "ext_marshal_fails = ext_with marshal_fails (None, None)"

definition ext_status_500 :: extern where
  "ext_status_500 =
     ext_with marshal_ok (Some \<lparr>StatusCode = 500, Body = ''Internal Server Error''\<rparr>, None)"

definition ext_refused :: extern where
  "ext_refused = ext_with marshal_ok (None, Some ''dial tcp: connection refused'')"

definition ext_redirects :: extern where
  "ext_redirects =
     ext_with marshal_ok (Some \<lparr>StatusCode = 302, Body = ''Found''\<rparr>, Some ''stopped after 10 redirects'')"

definition ext_ok :: extern where
  "ext_ok = ext_with marshal_ok (Some \<lparr>StatusCode = 200, Body = ''OK''\<rparr>, None)"

definition finished_world :: "extern \<Rightarrow> world" where
  "finished_world X = fst (goroutine_step X (stopped_world X) 0)"

text \<open>The world after \<open>CreateTracer\<close> in which the stop command of a call of \<open>StopTracer\<close> has been taken.\<close>

definition flushing_world :: "extern \<Rightarrow> world" where
  "flushing_world X = world_of (send X (created_world X) 0 CloseCmd)"

section \<open>Properties\<close>

subsection \<open>What each operation changes\<close>

lemma println_fields [simp]:
  "tracers (println l w) = tracers w" "globalTracer (println l w) = globalTracer w"
  "configs (println l w) = configs w" "posts (println l w) = posts w"
  "logs (println l w) = logs w @ [l]"
  by (simp_all add: println_def)

lemma debugln_fields [simp]:
  "tracers (debugln d l w) = tracers w" "globalTracer (debugln d l w) = globalTracer w"
  "configs (debugln d l w) = configs w" "posts (debugln d l w) = posts w"
  "logs (debugln d l w) = logs w @ (if d then [l] else [])"
  by (simp_all add: debugln_def)

lemma upd_tracer_fields [simp]:
  "tracers (upd_tracer i f w) = (tracers w)[i := f (tracers w ! i)]"
  "globalTracer (upd_tracer i f w) = globalTracer w"
  "configs (upd_tracer i f w) = configs w" "posts (upd_tracer i f w) = posts w"
  "logs (upd_tracer i f w) = logs w"
  by (simp_all add: upd_tracer_def)

lemma Run_enter_fields [simp]:
  "tracers (Run_enter w i) =
     (tracers w)[i := (if Running (tracers w ! i) then (tracers w ! i)\<lparr>task := Finished\<rparr>
                       else (tracers w ! i)\<lparr>running := Closed, task := AtSelect\<rparr>)]"
  "globalTracer (Run_enter w i) = globalTracer w"
  "configs (Run_enter w i) = configs w" "posts (Run_enter w i) = posts w"
  "logs (Run_enter w i) = logs w @ (if Debug (config_of w i) then [DebugStarted] else [])"
  by (simp_all add: Run_enter_def Let_def)

lemma Run_exit_fields [simp]:
  "tracers (Run_exit w i) = (tracers w)[i := (tracers w ! i)\<lparr>running := Open, task := Finished\<rparr>]"
  "globalTracer (Run_exit w i) = globalTracer w"
  "configs (Run_exit w i) = configs w" "posts (Run_exit w i) = posts w"
  "logs (Run_exit w i) = logs w"
  by (simp_all add: Run_exit_def)

subsection \<open>Reading the configuration and the buffers\<close>

lemma nth_update_field:
  assumes "\<And>t. F (f t) = F t"
  shows "F ((xs[i := f (xs ! i)]) ! j) = F (xs ! j)"
proof (cases "i < length xs \<and> j = i")
  case True
  then show ?thesis by (simp add: assms)
next
  case False
  then show ?thesis by (cases "j = i") (simp_all add: list_update_beyond)
qed

lemma upd_tracer_config_of:
  assumes "\<And>t. Config (f t) = Config t"
  shows "config_of (upd_tracer i f w) j = config_of w j"
  by (simp add: config_of_def nth_update_field [where F = Config, OF assms])

lemma upd_tracer_trace_of:
  assumes "\<And>t. Config (f t) = Config t" "\<And>t. events (f t) = events t"
    "\<And>t. exceptions (f t) = exceptions t"
  shows "trace_of X (upd_tracer i f w) j = trace_of X w j"
  by (simp add: trace_of_def upd_tracer_config_of [OF assms(1)]
        nth_update_field [where F = events, OF assms(2)]
        nth_update_field [where F = exceptions, OF assms(3)])

lemma log_config_of [simp]:
  "config_of (println l w) j = config_of w j"
  "config_of (debugln d l w) j = config_of w j"
  by (simp_all add: config_of_def)

lemma log_trace_of [simp]:
  "trace_of X (println l w) j = trace_of X w j"
  "trace_of X (debugln d l w) j = trace_of X w j"
  by (simp_all add: trace_of_def config_of_def)

lemma Run_enter_reads [simp]:
  "config_of (Run_enter w i) j = config_of w j"
  "trace_of X (Run_enter w i) j = trace_of X w j"
  by (simp_all add: Run_enter_def Let_def upd_tracer_config_of upd_tracer_trace_of)

lemma await_select_reads [simp]:
  "config_of (await_select w i) j = config_of w j"
  "trace_of X (await_select w i) j = trace_of X w j"
  by (simp_all add: await_select_def)

lemma await_select_frame [simp]:
  "globalTracer (await_select w i) = globalTracer w"
  "configs (await_select w i) = configs w"
  "posts (await_select w i) = posts w"
  "length (tracers (await_select w i)) = length (tracers w)"
  by (simp_all add: await_select_def)

lemma flush_world_reads [simp]:
  "config_of (flush_world w i) j = config_of w j"
  "trace_of X (flush_world w i) j = trace_of X w j"
  "posts (flush_world w i) = posts w"
  "globalTracer (flush_world w i) = globalTracer w"
  "configs (flush_world w i) = configs w"
  "length (tracers (flush_world w i)) = length (tracers w)"
  by (simp_all add: flush_world_def upd_tracer_config_of upd_tracer_trace_of)

lemma Stopped_iff: "Stopped t \<longleftrightarrow> stopped t = Closed"
  by (cases "stopped t") (simp_all add: Stopped_def isChannelPinged_def)


lemma returns_eq: "returns r \<Longrightarrow> r = Returns (world_of r)"
  by (cases r) simp_all

text \<open>The three ways \<open>sendTraces\<close> can go.\<close>

lemma sendTraces_frame:
  assumes "sendTraces X w i = (w', p)"
  shows "tracers w' = tracers w \<and> globalTracer w' = globalTracer w \<and> configs w' = configs w"
  using assms
  by (auto simp: sendTraces_def getTraceReader_def Let_def
           split: sum.splits prod.splits option.splits)

lemma sendTraces_marshal_error:
  assumes "MarshalToString X (trace_of X w i) = Inl err"
  shows "sendTraces X w i = (println (MarshalError err) w, False)"
  using assms by (simp add: sendTraces_def getTraceReader_def)

lemma sendTraces_posted:
  assumes "MarshalToString X (trace_of X w i) = Inr js"
  shows "sendTraces X w i =
    (case Post X (CollectorURL (config_of w i)) js of
       (resp, None) \<Rightarrow>
         ((debugln (Debug (config_of w i)) (FinalTraces js) w)
            \<lparr>posts := posts w @ [(CollectorURL (config_of w i), js)]\<rparr>, False)
     | (None, Some e) \<Rightarrow>
         ((debugln (Debug (config_of w i)) (FinalTraces js) w)
            \<lparr>posts := posts w @ [(CollectorURL (config_of w i), js)]\<rparr>, True)
     | (Some r, Some e) \<Rightarrow>
         (println (SendError e [])
           ((debugln (Debug (config_of w i)) (FinalTraces js) w)
              \<lparr>posts := posts w @ [(CollectorURL (config_of w i), js)]\<rparr>), False))"
  using assms
  by (simp add: sendTraces_def getTraceReader_def Let_def Body_Read_def
           split: prod.splits option.splits)

subsection \<open>The steps of the goroutine\<close>

lemma Run_select_event:
  "Run_select w i (EventMsg e) = upd_tracer i (\<lambda>t. t\<lparr>events := events t @ [e]\<rparr>) w"
  by (simp add: Run_select_def)

lemma Run_select_exception:
  "Run_select w i (ExceptionMsg x) = upd_tracer i (\<lambda>t. t\<lparr>exceptions := exceptions t @ [x]\<rparr>) w"
  by (simp add: Run_select_def)

lemma Run_select_close:
  "Run_select w i CloseCmd = upd_tracer i (\<lambda>t. t\<lparr>task := Flushing\<rparr>) w"
  by (simp add: Run_select_def)

lemma Run_select_tracers:
  "tracers (Run_select w i m) = (tracers w)[i :=
     (case m of EventMsg e \<Rightarrow> (tracers w ! i)\<lparr>events := events (tracers w ! i) @ [e]\<rparr>
      | ExceptionMsg x \<Rightarrow> (tracers w ! i)\<lparr>exceptions := exceptions (tracers w ! i) @ [x]\<rparr>
      | CloseCmd \<Rightarrow> (tracers w ! i)\<lparr>task := Flushing\<rparr>)]"
  "globalTracer (Run_select w i m) = globalTracer w"
  "configs (Run_select w i m) = configs w"
  by (cases m; simp add: Run_select_def)+

lemma Run_flush_frame:
  assumes "Run_flush X w i = (w', p)" "i < length (tracers w)"
  shows "globalTracer w' = globalTracer w" "configs w' = configs w"
    "tracers w' = (tracers w)[i := (if p then (tracers w ! i)\<lparr>stopped := Closed, running := Open, task := Finished\<rparr>
                                   else (tracers w ! i)\<lparr>stopped := Closed, task := AtDefer\<rparr>)]"
proof -
  obtain w2 q where s: "sendTraces X (debugln (Debug (config_of w i)) DebugStopsRunning w) i = (w2, q)"
    by (cases "sendTraces X (debugln (Debug (config_of w i)) DebugStopsRunning w) i")
  from sendTraces_frame [OF s]
  have f: "tracers w2 = tracers w" "globalTracer w2 = globalTracer w" "configs w2 = configs w"
    by simp_all
  from assms(1) s have pq: "p = q"
    by (simp add: Run_flush_def Let_def split: if_splits)
  from assms(1) s pq
  have w': "w' = (if p then Run_exit (upd_tracer i (\<lambda>t. t\<lparr>stopped := Closed, task := AtDefer\<rparr>) w2) i
                  else upd_tracer i (\<lambda>t. t\<lparr>stopped := Closed, task := AtDefer\<rparr>) w2)"
    by (simp add: Run_flush_def Let_def split: if_splits)
  show "globalTracer w' = globalTracer w" using w' f by simp
  show "configs w' = configs w" using w' f by simp
  show "tracers w' = (tracers w)[i := (if p then (tracers w ! i)\<lparr>stopped := Closed, running := Open, task := Finished\<rparr>
                                   else (tracers w ! i)\<lparr>stopped := Closed, task := AtDefer\<rparr>)]"
    using w' f assms(2) by simp
qed

lemma send_Returns:
  assumes "send X w i m = Returns w'"
  shows "task (tracers (await_select w i) ! i) = AtSelect" "w' = Run_select (await_select w i) i m"
  using assms by (simp_all add: send_def Let_def split: if_splits)

lemma send_length:
  assumes "send X w i m = Returns w'"
  shows "length (tracers w') = length (tracers w)"
  using send_Returns(2) [OF assms] by (simp add: Run_select_tracers)

subsection \<open>The flags of an instance follow its goroutine\<close>

lemma world_ok_update:
  assumes "world_ok w" "tracers w' = (tracers w)[i := t]" "globalTracer w' = globalTracer w"
    and "i < length (tracers w) \<Longrightarrow> tracer_ok t"
  shows "world_ok w'"
proof -
  have "tracer_ok (tracers w' ! j)" if "j < length (tracers w')" for j
  proof (cases "j = i")
    case True
    with that assms(2,4) show ?thesis by simp
  next
    case False
    with that assms(1,2) show ?thesis by (simp add: world_ok_def)
  qed
  moreover have "case globalTracer w' of None \<Rightarrow> True | Some g \<Rightarrow> g < length (tracers w')"
    using assms(1,2,3) by (simp add: world_ok_def split: option.splits)
  ultimately show ?thesis by (simp add: world_ok_def)
qed

lemma world_ok_same:
  assumes "world_ok w" "tracers w' = tracers w" "globalTracer w' = globalTracer w"
  shows "world_ok w'"
  using assms by (simp add: world_ok_def split: option.splits)

lemma world_ok_nth: "world_ok w \<Longrightarrow> i < length (tracers w) \<Longrightarrow> tracer_ok (tracers w ! i)"
  by (simp add: world_ok_def)

lemma world_ok_global: "world_ok w \<Longrightarrow> globalTracer w = Some g \<Longrightarrow> g < length (tracers w)"
  by (simp add: world_ok_def)

lemma at_loopI:
  "tracer_ok t \<Longrightarrow> stopped t = Open \<Longrightarrow> task t \<noteq> Flushing \<Longrightarrow> at_loop t"
  by (cases "task t") (simp_all add: tracer_ok_def at_loop_def)

lemma await_select_live:
  assumes "i < length (tracers w)" "at_loop (tracers w ! i)"
  shows "tracers (await_select w i) = (tracers w)[i := (tracers w ! i)\<lparr>running := Closed, task := AtSelect\<rparr>]"
    and "task (tracers (await_select w i) ! i) = AtSelect"
    and "logs (await_select w i) =
           logs w @ (if task (tracers w ! i) = Spawned \<and> Debug (config_of w i) then [DebugStarted] else [])"
proof -
  from assms(2) [unfolded at_loop_def]
  show "tracers (await_select w i) = (tracers w)[i := (tracers w ! i)\<lparr>running := Closed, task := AtSelect\<rparr>]"
  proof
    assume "task (tracers w ! i) = Spawned \<and> running (tracers w ! i) = Open"
    then show ?thesis by (simp add: await_select_def Running_def isChannelPinged_def)
  next
    assume a: "task (tracers w ! i) = AtSelect \<and> running (tracers w ! i) = Closed"
    then have "(tracers w ! i)\<lparr>running := Closed, task := AtSelect\<rparr> = tracers w ! i" by simp
    then have "(tracers w)[i := (tracers w ! i)\<lparr>running := Closed, task := AtSelect\<rparr>] = tracers w"
      by (simp only: list_update_id)
    with a show ?thesis by (simp only: await_select_def) simp
  qed
  with assms(1) show "task (tracers (await_select w i) ! i) = AtSelect" by simp
  show "logs (await_select w i) =
           logs w @ (if task (tracers w ! i) = Spawned \<and> Debug (config_of w i) then [DebugStarted] else [])"
    by (simp add: await_select_def)
qed

lemma await_select_world_ok:
  assumes "world_ok w" "i < length (tracers w)"
  shows "world_ok (await_select w i)"
proof (cases "task (tracers w ! i) = Spawned")
  case True
  with world_ok_nth [OF assms] have r: "running (tracers w ! i) = Open" "stopped (tracers w ! i) = Open"
    by (simp_all add: tracer_ok_def)
  have "tracers (Run_enter w i) = (tracers w)[i := (tracers w ! i)\<lparr>running := Closed, task := AtSelect\<rparr>]"
    by (simp add: r Running_def isChannelPinged_def)
  then have "world_ok (Run_enter w i)"
    by (rule world_ok_update [OF assms(1)]) (simp_all add: r tracer_ok_def)
  with True show ?thesis by (simp add: await_select_def)
next
  case False
  with assms(1) show ?thesis by (simp add: await_select_def)
qed

lemma send_world_ok:
  assumes "world_ok w" "i < length (tracers w)" "send X w i m = Returns w'"
  shows "world_ok w'"
proof -
  let ?w1 = "await_select w i"
  have ok1: "world_ok ?w1" by (rule await_select_world_ok [OF assms(1,2)])
  have len: "i < length (tracers ?w1)" using assms(2) by simp
  note at = send_Returns(1) [OF assms(3)]
  with world_ok_nth [OF ok1 len]
  have fl: "running (tracers ?w1 ! i) = Closed" "stopped (tracers ?w1 ! i) = Open"
    by (simp_all add: tracer_ok_def)
  have w': "tracers w' = (tracers ?w1)[i :=
     (case m of EventMsg e \<Rightarrow> (tracers ?w1 ! i)\<lparr>events := events (tracers ?w1 ! i) @ [e]\<rparr>
      | ExceptionMsg x \<Rightarrow> (tracers ?w1 ! i)\<lparr>exceptions := exceptions (tracers ?w1 ! i) @ [x]\<rparr>
      | CloseCmd \<Rightarrow> (tracers ?w1 ! i)\<lparr>task := Flushing\<rparr>)]"
    "globalTracer w' = globalTracer ?w1"
    by (simp_all only: send_Returns(2) [OF assms(3)] Run_select_tracers)
  show ?thesis
    by (rule world_ok_update [OF ok1 w']) (cases m; simp add: tracer_ok_def at fl)
qed

lemma Run_flush_world_ok:
  assumes "world_ok w" "i < length (tracers w)" "task (tracers w ! i) = Flushing"
    "Run_flush X w i = (w', p)"
  shows "world_ok w'"
proof -
  from world_ok_nth [OF assms(1,2)] assms(3)
  have fl: "running (tracers w ! i) = Closed" by (simp add: tracer_ok_def)
  show ?thesis
    by (rule world_ok_update [OF assms(1) Run_flush_frame(3) [OF assms(4,2)]
          Run_flush_frame(1) [OF assms(4,2)]])
       (simp add: tracer_ok_def fl)
qed

lemma await_stopped_world_ok:
  assumes "world_ok w" "i < length (tracers w)" "await_stopped X w i = Returns w'"
  shows "world_ok w'"
proof (cases "stopped (tracers w ! i) = Closed")
  case True
  with assms(1,3) show ?thesis by (simp add: await_stopped_def)
next
  case False
  with assms(3) have fl: "task (tracers w ! i) = Flushing" and rf: "Run_flush X w i = (w', False)"
    by (auto simp: await_stopped_def split: if_splits prod.splits)
  show ?thesis by (rule Run_flush_world_ok [OF assms(1,2) fl rf])
qed

lemma tracer_AddEvent_world_ok:
  assumes "world_ok w" "i < length (tracers w)" "tracer_AddEvent X w i e = Returns w'"
  shows "world_ok w'"
proof -
  from assms(3) obtain w1 where s: "send X w i (EventMsg e) = Returns w1"
    and w': "w' = debugln (Debug (config_of w1 i)) (DebugAddingEvent e) w1"
    by (auto simp: tracer_AddEvent_def split: outcome.splits)
  from send_world_ok [OF assms(1,2) s] w' show ?thesis
    by (auto intro: world_ok_same)
qed

lemma tracer_Stop_world_ok:
  assumes "world_ok w" "i < length (tracers w)" "tracer_Stop X w i = Returns w'"
  shows "world_ok w'"
proof (cases "stopped (tracers w ! i)")
  case Closed
  with assms(1,3) show ?thesis by (simp add: tracer_Stop_def)
next
  case Open
  with assms(3) obtain w1 where s: "send X w i CloseCmd = Returns w1"
    and a: "await_stopped X w1 i = Returns w'"
    by (auto simp: tracer_Stop_def split: outcome.splits)
  have "i < length (tracers w1)" using send_length [OF s] assms(2) by simp
  from await_stopped_world_ok [OF send_world_ok [OF assms(1,2) s] this a] show ?thesis .
qed

lemma CreateTracer_world_ok:
  assumes "world_ok w" "CreateTracer X w c = Returns w'"
  shows "world_ok w'"
proof (cases "globalTracer w \<noteq> None \<and> \<not> Stopped (tracers w ! the (globalTracer w))")
  case True
  with assms show ?thesis by (auto simp: CreateTracer_def intro: world_ok_same)
next
  case False
  with assms(2) obtain a where w':
    "tracers w' = tracers w @ [\<lparr>Config = a, events = [], exceptions = [],
                          stopped = Open, running = Open, task = Spawned\<rparr>]"
    "globalTracer w' = Some (length (tracers w))"
    by (auto simp: CreateTracer_def Let_def split: option.splits prod.splits)
  have "tracer_ok (tracers w' ! j)" if "j < length (tracers w')" for j
    using that assms(1) w'(1) by (cases "j < length (tracers w)") (auto simp: nth_append world_ok_def tracer_ok_def)
  then show ?thesis using w' by (simp add: world_ok_def)
qed

lemma goroutine_step_world_ok:
  assumes "world_ok w" "i < length (tracers w)" "goroutine_step X w i = (w', p)"
  shows "world_ok w'"
proof (cases "task (tracers w ! i)")
  case Spawned
  with assms(3) have "w' = await_select w i"
    by (simp add: goroutine_step_def await_select_def)
  then show ?thesis using await_select_world_ok [OF assms(1,2)] by simp
next
  case AtSelect
  then show ?thesis using assms(1,3) by (simp add: goroutine_step_def)
next
  case Flushing
  with assms(3) have "Run_flush X w i = (w', p)" by (simp add: goroutine_step_def)
  from Run_flush_world_ok [OF assms(1,2) Flushing this] show ?thesis .
next
  case AtDefer
  with world_ok_nth [OF assms(1,2)] have "stopped (tracers w ! i) = Closed" by (simp add: tracer_ok_def)
  then have "world_ok (Run_exit w i)"
    by (intro world_ok_update [OF assms(1) Run_exit_fields(1) Run_exit_fields(2)]) (simp add: tracer_ok_def)
  with AtDefer assms(3) show ?thesis by (simp add: goroutine_step_def)
next
  case Finished
  then show ?thesis using assms(1,3) by (simp add: goroutine_step_def)
qed

lemma step_world_ok:
  assumes "step X w w'" "world_ok w"
  shows "world_ok w'"
  using assms
proof (cases rule: step.cases)
  case (goroutine i)
  then show ?thesis using goroutine_step_world_ok assms(2) by blast
next
  case (caller_write cs)
  then show ?thesis using assms(2) by (auto intro: world_ok_same)
next
  case (create c)
  then show ?thesis using CreateTracer_world_ok assms(2) by blast
next
  case (add_event e)
  then show ?thesis using assms(2)
    by (auto simp: AddEvent_def split: if_splits
        intro: world_ok_same tracer_AddEvent_world_ok world_ok_global)
next
  case (add_exception x)
  then show ?thesis using assms(2)
    by (auto simp: AddException_def tracer_AddException_def split: if_splits
        intro: world_ok_same send_world_ok world_ok_global)
next
  case stop
  then show ?thesis using assms(2)
    by (auto simp: StopTracer_def split: if_splits
        intro: world_ok_same tracer_Stop_world_ok world_ok_global)
qed

lemma conc_step_world_ok:
  assumes "conc_step X w w'" "world_ok w"
  shows "world_ok w'"
  using assms(1)
proof (cases rule: conc_step.cases)
  case one_caller
  then show ?thesis by (rule step_world_ok [OF _ assms(2)])
next
  case (stop_taken g)
  from send_world_ok [OF assms(2) world_ok_global [OF assms(2) stop_taken(1)] stop_taken(3)]
  show ?thesis .
qed

lemma conc_reachable_world_ok: "conc_reachable X w \<Longrightarrow> world_ok w"
proof (induction rule: conc_reachable.induct)
  case (conc_start cs)
  show ?case by (simp add: world_ok_def init_world_def)
next
  case (conc_later w w')
  then show ?case using conc_step_world_ok by blast
qed

lemma reachable_conc: "reachable X w \<Longrightarrow> conc_reachable X w"
proof (induction rule: reachable.induct)
  case (start cs)
  show ?case by (rule conc_start)
next
  case (later w w')
  then show ?case by (blast intro: conc_later one_caller)
qed

lemma reachable_world_ok: "reachable X w \<Longrightarrow> world_ok w"
  by (rule conc_reachable_world_ok [OF reachable_conc])

subsection \<open>Between the calls of one caller no flush is under way\<close>

lemma world_idle_update:
  assumes "world_idle w" "tracers w' = (tracers w)[i := t]" "task t \<noteq> Flushing"
  shows "world_idle w'"
proof -
  have "task (tracers w' ! j) \<noteq> Flushing" if "j < length (tracers w')" for j
    using that assms by (cases "j = i") (simp_all add: world_idle_def)
  then show ?thesis by (simp add: world_idle_def)
qed

lemma world_idle_same: "world_idle w \<Longrightarrow> tracers w' = tracers w \<Longrightarrow> world_idle w'"
  by (simp add: world_idle_def)

lemma Run_enter_idle: "world_idle w \<Longrightarrow> world_idle (Run_enter w i)"
  by (erule world_idle_update [OF _ Run_enter_fields(1)]) simp

lemma await_select_idle: "world_idle w \<Longrightarrow> world_idle (await_select w i)"
  by (simp add: await_select_def Run_enter_idle)

lemma send_data_idle:
  assumes "world_idle w" "send X w i m = Returns w'" "m \<noteq> CloseCmd"
  shows "world_idle w'"
proof -
  have "tracers w' = (tracers (await_select w i))[i :=
     (case m of EventMsg e \<Rightarrow> (tracers (await_select w i) ! i)\<lparr>events := events (tracers (await_select w i) ! i) @ [e]\<rparr>
      | ExceptionMsg x \<Rightarrow> (tracers (await_select w i) ! i)\<lparr>exceptions := exceptions (tracers (await_select w i) ! i) @ [x]\<rparr>
      | CloseCmd \<Rightarrow> (tracers (await_select w i) ! i)\<lparr>task := Flushing\<rparr>)]"
    by (simp only: send_Returns(2) [OF assms(2)] Run_select_tracers)
  then show ?thesis
    by (rule world_idle_update [OF await_select_idle [OF assms(1)]])
       (use assms(3) send_Returns(1) [OF assms(2)] in \<open>cases m; simp\<close>)
qed

lemma tracer_Stop_idle:
  assumes "world_idle w" "i < length (tracers w)" "tracer_Stop X w i = Returns w'"
  shows "world_idle w'"
proof (cases "stopped (tracers w ! i)")
  case Closed
  with assms(1,3) show ?thesis by (simp add: tracer_Stop_def)
next
  case Open
  with assms(3) obtain w1 where s: "send X w i CloseCmd = Returns w1"
    and a: "await_stopped X w1 i = Returns w'"
    by (auto simp: tracer_Stop_def split: outcome.splits)
  let ?w0 = "await_select w i"
  have len0: "i < length (tracers ?w0)" using assms(2) by simp
  have w1: "tracers w1 = (tracers ?w0)[i := (tracers ?w0 ! i)\<lparr>task := Flushing\<rparr>]"
    by (simp add: send_Returns(2) [OF s] Run_select_tracers)
  have len1: "i < length (tracers w1)" using w1 len0 by simp
  have t1: "task (tracers w1 ! i) = Flushing" using w1 len0 by simp
  have "stopped (tracers ?w0 ! i) = Open"
    using Open assms(2) by (simp add: await_select_def Run_enter_def Let_def)
  then have "stopped (tracers w1 ! i) \<noteq> Closed" using w1 len0 by simp
  with a t1 have rf: "Run_flush X w1 i = (w', False)"
    by (auto simp: await_stopped_def split: if_splits prod.splits)
  from Run_flush_frame(3) [OF rf len1]
  have "tracers w' = (tracers ?w0)[i := (tracers w1 ! i)\<lparr>stopped := Closed, task := AtDefer\<rparr>]"
    by (simp add: w1)
  then show ?thesis
    by (rule world_idle_update [OF await_select_idle [OF assms(1)]]) simp
qed

lemma CreateTracer_idle:
  assumes "world_idle w" "CreateTracer X w c = Returns w'"
  shows "world_idle w'"
proof (cases "globalTracer w \<noteq> None \<and> \<not> Stopped (tracers w ! the (globalTracer w))")
  case True
  with assms show ?thesis by (auto simp: CreateTracer_def intro: world_idle_same)
next
  case False
  with assms(2) obtain a where w':
    "tracers w' = tracers w @ [\<lparr>Config = a, events = [], exceptions = [],
                          stopped = Open, running = Open, task = Spawned\<rparr>]"
    by (auto simp: CreateTracer_def Let_def split: option.splits prod.splits)
  have "task (tracers w' ! j) \<noteq> Flushing" if "j < length (tracers w')" for j
    using that assms(1) w' by (cases "j < length (tracers w)") (auto simp: nth_append world_idle_def)
  then show ?thesis by (simp add: world_idle_def)
qed

lemma goroutine_step_idle:
  assumes "world_idle w" "i < length (tracers w)" "goroutine_step X w i = (w', p)"
  shows "world_idle w'"
proof (cases "task (tracers w ! i)")
  case Spawned
  with assms(3) have "w' = Run_enter w i" by (simp add: goroutine_step_def)
  then show ?thesis using Run_enter_idle [OF assms(1)] by simp
next
  case AtSelect
  then show ?thesis using assms(1,3) by (simp add: goroutine_step_def)
next
  case Flushing
  with assms(1,2) show ?thesis by (simp add: world_idle_def)
next
  case AtDefer
  have "world_idle (Run_exit w i)"
    by (rule world_idle_update [OF assms(1) Run_exit_fields(1)]) simp
  with AtDefer assms(3) show ?thesis by (simp add: goroutine_step_def)
next
  case Finished
  then show ?thesis using assms(1,3) by (simp add: goroutine_step_def)
qed

lemma step_idle:
  assumes "step X w w'" "world_ok w" "world_idle w"
  shows "world_idle w'"
  using assms(1)
proof (cases rule: step.cases)
  case (goroutine i)
  then show ?thesis using goroutine_step_idle [OF assms(3)] by blast
next
  case (caller_write cs)
  then show ?thesis using assms(3) by (auto intro: world_idle_same)
next
  case (create c)
  then show ?thesis using CreateTracer_idle [OF assms(3)] by blast
next
  case (add_event e)
  show ?thesis
  proof (cases "globalTracer w = None \<or> Stopped (tracers w ! the (globalTracer w))")
    case True
    with add_event assms(3) show ?thesis by (auto simp: AddEvent_def intro: world_idle_same)
  next
    case False
    with add_event obtain w1 where s: "send X w (the (globalTracer w)) (EventMsg e) = Returns w1"
      and w': "w' = debugln (Debug (config_of w1 (the (globalTracer w)))) (DebugAddingEvent e) w1"
      by (auto simp: AddEvent_def tracer_AddEvent_def split: outcome.splits)
    from send_data_idle [OF assms(3) s] w' show ?thesis by (auto intro: world_idle_same)
  qed
next
  case (add_exception x)
  then show ?thesis using assms(3)
    by (auto simp: AddException_def tracer_AddException_def split: if_splits
        intro: world_idle_same send_data_idle)
next
  case stop
  then show ?thesis using assms(2,3)
    by (auto simp: StopTracer_def split: if_splits
        intro: world_idle_same tracer_Stop_idle world_ok_global)
qed

lemma reachable_idle: "reachable X w \<Longrightarrow> world_idle w"
proof (induction rule: reachable.induct)
  case (start cs)
  show ?case by (simp add: world_idle_def init_world_def)
next
  case (later w w')
  then show ?case using step_idle reachable_world_ok by blast
qed

subsection \<open>Sending to an instance whose goroutine is in the loop\<close>

lemma live_global:
  assumes "reachable X w" "globalTracer w = Some g" "\<not> Stopped (tracers w ! g)"
  shows "g < length (tracers w)" "at_loop (tracers w ! g)" "stopped (tracers w ! g) = Open"
proof -
  have ok: "world_ok w" by (rule reachable_world_ok [OF assms(1)])
  show g: "g < length (tracers w)" by (rule world_ok_global [OF ok assms(2)])
  show o: "stopped (tracers w ! g) = Open"
    using assms(3) by (cases "stopped (tracers w ! g)") (simp_all add: Stopped_iff)
  from reachable_idle [OF assms(1)] g have "task (tracers w ! g) \<noteq> Flushing"
    by (simp add: world_idle_def)
  with world_ok_nth [OF ok g] o show "at_loop (tracers w ! g)" by (rule at_loopI)
qed

lemma StopTracer_live:
  assumes "globalTracer w = Some g" "\<not> Stopped (tracers w ! g)"
  shows "StopTracer X w = tracer_Stop X w g"
  using assms by (simp add: StopTracer_def)

lemma send_live:
  assumes "i < length (tracers w)" "at_loop (tracers w ! i)"
  shows "send X w i m = Returns (Run_select (await_select w i) i m)"
  using await_select_live(2) [OF assms] by (simp add: send_def Let_def)

lemma live_after_add:
  assumes "i < length (tracers w)" "at_loop (tracers w ! i)"
  shows "tracers (upd_tracer i f (await_select w i)) ! i =
           f ((tracers w ! i)\<lparr>running := Closed, task := AtSelect\<rparr>)"
  using assms(1) by (simp add: await_select_live(1) [OF assms])

lemma tracer_Stop_live:
  assumes "i < length (tracers w)" "at_loop (tracers w ! i)" "stopped (tracers w ! i) = Open"
  shows "tracer_Stop X w i =
    (case sendTraces X (flush_world w i) i of
       (w2, p) \<Rightarrow>
         if p then Panics (Run_exit (upd_tracer i (\<lambda>t. t\<lparr>stopped := Closed, task := AtDefer\<rparr>) w2) i)
         else Returns (upd_tracer i (\<lambda>t. t\<lparr>stopped := Closed, task := AtDefer\<rparr>) w2))"
proof -
  let ?w1 = "upd_tracer i (\<lambda>t. t\<lparr>task := Flushing\<rparr>) (await_select w i)"
  obtain w2 p where s: "sendTraces X (flush_world w i) i = (w2, p)"
    by (cases "sendTraces X (flush_world w i) i")
  from sendTraces_frame [OF s] assms(1)
  have len: "i < length (tracers w2)" by simp
  have sd: "send X w i CloseCmd = Returns ?w1"
    by (simp add: send_live [OF assms(1,2)] Run_select_close)
  have t1: "tracers ?w1 ! i = (tracers w ! i)\<lparr>running := Closed, task := Flushing\<rparr>"
    by (simp only: live_after_add [OF assms(1,2)]) simp
  have c1: "config_of ?w1 i = config_of w i" by (simp add: upd_tracer_config_of)
  have rf: "Run_flush X ?w1 i =
      (if p then (Run_exit (upd_tracer i (\<lambda>t. t\<lparr>stopped := Closed, task := AtDefer\<rparr>) w2) i, True)
       else (upd_tracer i (\<lambda>t. t\<lparr>stopped := Closed, task := AtDefer\<rparr>) w2, False))"
    using s by (simp add: Run_flush_def c1 flush_world_def Let_def)
  have st1: "stopped (tracers ?w1 ! i) = Open" "task (tracers ?w1 ! i) = Flushing"
    unfolding t1 using assms(3) by simp_all
  have "await_stopped X ?w1 i =
      (case Run_flush X ?w1 i of
         (v, panicked) \<Rightarrow>
           if panicked then Panics v
           else if stopped (tracers v ! i) = Closed then Returns v else Blocks v)"
    by (simp only: await_stopped_def st1) simp
  then have "await_stopped X ?w1 i =
      (if p then Panics (Run_exit (upd_tracer i (\<lambda>t. t\<lparr>stopped := Closed, task := AtDefer\<rparr>) w2) i)
       else Returns (upd_tracer i (\<lambda>t. t\<lparr>stopped := Closed, task := AtDefer\<rparr>) w2))"
    using len by (simp add: rf)
  then show ?thesis
    using assms(3) by (simp add: tracer_Stop_def sd s)
qed

lemmas model_defs =
  CreateTracer_def StopTracer_def AddEvent_def AddException_def tracer_Stop_def
  tracer_AddEvent_def tracer_AddException_def send_def await_select_def await_stopped_def
  Run_select_def Run_flush_def
  Run_enter_def Run_exit_def goroutine_step_def sendTraces_def getTraceReader_def
  trace_of_def config_of_def upd_tracer_def println_def debugln_def init_world_def
  andThen_def fillConfigDefaults_def Running_def Stopped_def isChannelPinged_def
  Body_Read_def ext_with_def marshal_ok_def marshal_fails_def svc_config_def
  empty_config_def flush_world_def Let_def

subsection \<open>The configuration resolver\<close>

text \<open>
  Claim C8. For every configuration and every environment \<open>fillConfigDefaults\<close> returns
  (it has no failing branch), and each field is decided by its own rule: the token is the
  value of \<open>EPSAGON_TOKEN\<close> exactly when it was empty and is left alone otherwise; the
  collector URL, exactly when it was empty, is \<open>http://{region}.tc.epsagon.com\<close> for a
  non-empty \<open>AWS_REGION\<close> and the fixed us-east-1 URL otherwise; the debug flag is raised
  only by \<open>EPSAGON_DEBUG = TRUE\<close>; the other fields are as given.
\<close>

theorem fillConfigDefaults_rules:
  "Token (fst (fillConfigDefaults getenv c)) =
     (if Token c = [] then getenv ''EPSAGON_TOKEN'' else Token c) \<and>
   CollectorURL (fst (fillConfigDefaults getenv c)) =
     (if CollectorURL c \<noteq> [] then CollectorURL c
      else if getenv ''AWS_REGION'' \<noteq> [] then ''http://'' @ getenv ''AWS_REGION'' @ ''.tc.epsagon.com''
      else ''http://us-east-1.tc.epsagon.com'') \<and>
   Debug (fst (fillConfigDefaults getenv c)) = (Debug c \<or> getenv ''EPSAGON_DEBUG'' = ''TRUE'') \<and>
   ApplicationName (fst (fillConfigDefaults getenv c)) = ApplicationName c \<and>
   MetadataOnly (fst (fillConfigDefaults getenv c)) = MetadataOnly c"
  by (simp add: fillConfigDefaults_def Let_def)

theorem fillConfigDefaults_rules_witness:
  "Token (fst (fillConfigDefaults (\<lambda>v. if v = ''AWS_REGION'' then ''eu-west-1'' else []) empty_config)) = [] \<and>
   CollectorURL (fst (fillConfigDefaults (\<lambda>v. if v = ''AWS_REGION'' then ''eu-west-1'' else []) empty_config))
     = ''http://eu-west-1.tc.epsagon.com'' \<and>
   CollectorURL (fst (fillConfigDefaults (\<lambda>v. []) empty_config)) = ''http://us-east-1.tc.epsagon.com'' \<and>
   Token (fst (fillConfigDefaults (\<lambda>v. ''x'') svc_config)) = ''t1'' \<and>
   CollectorURL (fst (fillConfigDefaults (\<lambda>v. ''x'') svc_config)) = ''http://example''"
  using fillConfigDefaults_rules [of "\<lambda>v. if v = ''AWS_REGION'' then ''eu-west-1'' else []" empty_config]
    fillConfigDefaults_rules [of "\<lambda>v. []" empty_config]
    fillConfigDefaults_rules [of "\<lambda>v. ''x''" svc_config]
  by (simp add: empty_config_def svc_config_def)

lemma created_world_eq:
  "created_world (ext_with m r) =
    \<lparr>configs = (\<lambda>a. svc_config), 
     tracers = [\<lparr>Config = 0, events = [], exceptions = [], stopped = Open, running = Open, task = Spawned\<rparr>],
     globalTracer = Some 0, logs = [], posts = []\<rparr>"
  by (simp add: created_world_def CreateTracer_def init_world_def fillConfigDefaults_def svc_config_def
        ext_with_def Let_def debugln_def fun_upd_idem)

lemma reachable_created: "reachable X (created_world X)"
proof -
  have "CreateTracer X (init_world (\<lambda>a. svc_config)) (Some 0) = Returns (created_world X)"
    by (simp add: created_world_def CreateTracer_def init_world_def Let_def split: prod.splits)
  then show ?thesis by (rule later [OF start create])
qed

subsection \<open>A flush that cannot be serialised\<close>

text \<open>
  Claim C6. When the marshaler fails on the trace of the running global instance,
  \<open>StopTracer\<close> returns: the error is the last line logged, no HTTP request has been
  made, the instance is marked stopped and its goroutine has left the loop (only the
  reset of \<open>running\<close> remains, it takes no further message, so the buffers are never
  sent), and another \<open>StopTracer\<close> makes no request either.
\<close>

theorem marshal_failure_drops_trace:
  assumes "reachable X w" "globalTracer w = Some g" "\<not> Stopped (tracers w ! g)"
    and "MarshalToString X (trace_of X w g) = Inl err"
  shows "returns (StopTracer X w) \<and>
         posts (world_of (StopTracer X w)) = posts w \<and>
         logs (world_of (StopTracer X w)) =
           logs w @ (if task (tracers w ! g) = Spawned \<and> Debug (config_of w g) then [DebugStarted] else [])
                  @ (if Debug (config_of w g) then [DebugStopsRunning] else [])
                  @ [MarshalError err] \<and>
         Stopped (tracers (world_of (StopTracer X w)) ! g) \<and>
         task (tracers (world_of (StopTracer X w)) ! g) = AtDefer \<and>
         posts (world_of (StopTracer X (world_of (StopTracer X w)))) = posts w"
proof -
  note live = live_global [OF assms(1,2,3)]
  let ?w' = "upd_tracer g (\<lambda>t. t\<lparr>stopped := Closed, task := AtDefer\<rparr>)
               (println (MarshalError err) (flush_world w g))"
  have "sendTraces X (flush_world w g) g = (println (MarshalError err) (flush_world w g), False)"
    by (rule sendTraces_marshal_error) (simp add: assms(4))
  then have st: "StopTracer X w = Returns ?w'"
    by (simp add: StopTracer_live [OF assms(2,3)] tracer_Stop_live [OF live])
  have len: "g < length (tracers (flush_world w g))" using live(1) by simp
  have stopped': "Stopped (tracers ?w' ! g)" "task (tracers ?w' ! g) = AtDefer"
    using len by (simp_all add: Stopped_iff)
  have again: "StopTracer X ?w' = Returns (println NotInitialized ?w')"
    using stopped'(1) assms(2) by (simp add: StopTracer_def)
  have lg: "logs (flush_world w g) =
      logs w @ (if task (tracers w ! g) = Spawned \<and> Debug (config_of w g) then [DebugStarted] else [])
             @ (if Debug (config_of w g) then [DebugStopsRunning] else [])"
    by (simp add: flush_world_def await_select_live(3) [OF live(1,2)])
  show ?thesis
    using stopped' lg by (simp add: st again)
qed

theorem marshal_failure_drops_trace_witness:
  "returns (StopTracer ext_marshal_fails (created_world ext_marshal_fails)) \<and>
   posts (stopped_world ext_marshal_fails) = [] \<and>
   logs (stopped_world ext_marshal_fails) = [MarshalError ''repeated field Events has nil element''] \<and>
   Stopped (tracers (stopped_world ext_marshal_fails) ! 0) \<and>
   task (tracers (stopped_world ext_marshal_fails) ! 0) = AtDefer \<and>
   posts (world_of (StopTracer ext_marshal_fails (stopped_world ext_marshal_fails))) = []"
proof -
  let ?X = ext_marshal_fails
  have h1: "reachable ?X (created_world ?X)" by (rule reachable_created)
  have h2: "globalTracer (created_world ?X) = Some 0"
    by (simp add: ext_marshal_fails_def created_world_eq)
  have h3: "\<not> Stopped (tracers (created_world ?X) ! 0)"
    by (simp add: ext_marshal_fails_def created_world_eq Stopped_iff)
  have h4: "MarshalToString ?X (trace_of ?X (created_world ?X) 0) = Inl ''repeated field Events has nil element''"
    by (simp add: ext_marshal_fails_def ext_with_def marshal_fails_def)
  show ?thesis
    using marshal_failure_drops_trace [OF h1 h2 h3 h4]
    by (simp add: stopped_world_def ext_marshal_fails_def created_world_eq config_of_def svc_config_def)
qed

lemma ext_with_sel:
  "Getenv (ext_with m r) = (\<lambda>v. [])" "RuntimeVersion (ext_with m r) = ''go1.10''"
  "MarshalToString (ext_with m r) = m" "Post (ext_with m r) = (\<lambda>url body. r)"
  by (simp_all add: ext_with_def)

lemma created_world_facts:
  "globalTracer (created_world (ext_with m r)) = Some 0"
  "\<not> Stopped (tracers (created_world (ext_with m r)) ! 0)"
  "config_of (created_world (ext_with m r)) 0 = svc_config"
  "trace_of (ext_with m r) (created_world (ext_with m r)) 0 =
     \<lparr>AppName = ''svc'', TraceToken = ''t1'', Events = [], Exceptions = [],
      Version = ''0.0.1'', Platform = ''go1.10''\<rparr>"
  "posts (created_world (ext_with m r)) = []"
  "logs (created_world (ext_with m r)) = []"
  by (simp_all add: created_world_eq Stopped_iff config_of_def trace_of_def svc_config_def ext_with_sel)

subsection \<open>What the transport's answer does to the flush\<close>

text \<open>
  Claim C3, as the code has it. When \<open>client.Post\<close> hands back a response, the flush of
  the running global instance ends with \<open>StopTracer\<close> returning and the instance marked
  stopped, after exactly one request. If no error value came with the response (the case
  of every status code, 500 included) no failure line is logged; if an error value came
  with it, that error is logged, once.
\<close>

theorem flush_with_response:
  assumes "reachable X w" "globalTracer w = Some g" "\<not> Stopped (tracers w ! g)"
    and "MarshalToString X (trace_of X w g) = Inr js"
    and "Post X (CollectorURL (config_of w g)) js = (Some r, e)"
  shows "returns (StopTracer X w) \<and>
         Stopped (tracers (world_of (StopTracer X w)) ! g) \<and>
         posts (world_of (StopTracer X w)) = posts w @ [(CollectorURL (config_of w g), js)] \<and>
         map failure_text (filter is_failure (logs (world_of (StopTracer X w)))) =
           map failure_text (filter is_failure (logs w)) @ (case e of None \<Rightarrow> [] | Some err \<Rightarrow> [err])"
proof -
  note live = live_global [OF assms(1,2,3)]
  have len: "g < length (tracers (flush_world w g))" using live(1) by simp
  have lg: "filter is_failure (logs (flush_world w g)) = filter is_failure (logs w)"
    by (simp add: flush_world_def await_select_live(3) [OF live(1,2)])
  have m: "MarshalToString X (trace_of X (flush_world w g) g) = Inr js" by (simp add: assms(4))
  show ?thesis
  proof (cases e)
    case None
    with assms(5) sendTraces_posted [OF m]
    have "sendTraces X (flush_world w g) g =
      ((debugln (Debug (config_of w g)) (FinalTraces js) (flush_world w g))
            \<lparr>posts := posts w @ [(CollectorURL (config_of w g), js)]\<rparr>, False)"
      by simp
    then show ?thesis using len lg None
      by (simp add: StopTracer_live [OF assms(2,3)] tracer_Stop_live [OF live] Stopped_iff)
  next
    case (Some err)
    with assms(5) sendTraces_posted [OF m]
    have "sendTraces X (flush_world w g) g =
      (println (SendError err [])
        ((debugln (Debug (config_of w g)) (FinalTraces js) (flush_world w g))
            \<lparr>posts := posts w @ [(CollectorURL (config_of w g), js)]\<rparr>), False)"
      by simp
    then show ?thesis using len lg Some
      by (simp add: StopTracer_live [OF assms(2,3)] tracer_Stop_live [OF live] Stopped_iff)
  qed
qed

theorem flush_with_response_witness:
  "returns (StopTracer ext_redirects (created_world ext_redirects)) \<and>
   Stopped (tracers (stopped_world ext_redirects) ! 0) \<and>
   posts (stopped_world ext_redirects) = [(''http://example'', ''{}'')] \<and>
   map failure_text (filter is_failure (logs (stopped_world ext_redirects))) = [''stopped after 10 redirects'']"
proof -
  let ?X = ext_redirects
  have h1: "reachable ?X (created_world ?X)" by (rule reachable_created)
  have h2: "globalTracer (created_world ?X) = Some 0"
    by (simp add: ext_redirects_def created_world_facts)
  have h3: "\<not> Stopped (tracers (created_world ?X) ! 0)"
    by (simp add: ext_redirects_def created_world_facts)
  have h4: "MarshalToString ?X (trace_of ?X (created_world ?X) 0) = Inr ''{}''"
    by (simp add: ext_redirects_def ext_with_sel marshal_ok_def)
  have h5: "Post ?X (CollectorURL (config_of (created_world ?X) 0)) ''{}'' =
      (Some \<lparr>StatusCode = 302, Body = ''Found''\<rparr>, Some ''stopped after 10 redirects'')"
    by (simp add: ext_redirects_def ext_with_sel)
  show ?thesis
    using flush_with_response [OF h1 h2 h3 h4 h5]
    by (simp add: stopped_world_def ext_redirects_def created_world_facts svc_config_def)
qed

text \<open>
  The claim C3 as stated fails for a response with status 500: the call returns, the
  instance is stopped, the request has been made, and the log is empty.
\<close>

theorem status_500_not_logged:
  "returns (StopTracer ext_status_500 (created_world ext_status_500)) \<and>
   Stopped (tracers (stopped_world ext_status_500) ! 0) \<and>
   posts (stopped_world ext_status_500) = [(''http://example'', ''{}'')] \<and>
   logs (stopped_world ext_status_500) = []"
  unfolding stopped_world_def ext_status_500_def created_world_eq
  by (simp add: model_defs)

text \<open>
  Claim C2 at a failed connection: \<open>client.Post\<close> returns no response and an error,
  \<open>sendTraces\<close> reads \<open>resp.Body\<close> of the nil response and the goroutine panics. The
  process dies in \<open>StopTracer\<close>; the request has been made and nothing has been logged.
\<close>

theorem network_error_panics:
  "panics (StopTracer ext_refused (created_world ext_refused)) \<and>
   posts (stopped_world ext_refused) = [(''http://example'', ''{}'')] \<and>
   logs (stopped_world ext_refused) = []"
  unfolding stopped_world_def ext_refused_def created_world_eq
  by (simp add: model_defs)

subsection \<open>Calls without a usable instance\<close>

text \<open>
  Claim C7. When \<open>globalTracer\<close> is nil or holds a stopped instance, each of
  \<open>AddEvent\<close>, \<open>AddException\<close> and \<open>StopTracer\<close> returns, and the world it leaves
  differs from the one before only by the warning appended to the log.
\<close>

theorem free_functions_noop:
  assumes "globalTracer w = None \<or> Stopped (tracers w ! the (globalTracer w))"
  shows "AddEvent X w e = Returns (w\<lparr>logs := logs w @ [NotInitialized]\<rparr>) \<and>
         AddException X w x = Returns (w\<lparr>logs := logs w @ [NotInitialized]\<rparr>) \<and>
         StopTracer X w = Returns (w\<lparr>logs := logs w @ [NotInitialized]\<rparr>)"
  using assms by (simp add: AddEvent_def AddException_def StopTracer_def println_def)

theorem free_functions_noop_witness:
  "AddEvent ext_status_500 (init_world (\<lambda>a. svc_config)) 7 =
     Returns ((init_world (\<lambda>a. svc_config))\<lparr>logs := [NotInitialized]\<rparr>) \<and>
   AddException ext_status_500 (init_world (\<lambda>a. svc_config)) 8 =
     Returns ((init_world (\<lambda>a. svc_config))\<lparr>logs := [NotInitialized]\<rparr>) \<and>
   StopTracer ext_status_500 (init_world (\<lambda>a. svc_config)) =
     Returns ((init_world (\<lambda>a. svc_config))\<lparr>logs := [NotInitialized]\<rparr>) \<and>
   AddEvent ext_status_500 (stopped_world ext_status_500) 7 =
     Returns ((stopped_world ext_status_500)\<lparr>logs := [NotInitialized]\<rparr>) \<and>
   AddException ext_status_500 (stopped_world ext_status_500) 8 =
     Returns ((stopped_world ext_status_500)\<lparr>logs := [NotInitialized]\<rparr>) \<and>
   StopTracer ext_status_500 (stopped_world ext_status_500) =
     Returns ((stopped_world ext_status_500)\<lparr>logs := [NotInitialized]\<rparr>)"
proof -
  let ?X = ext_status_500
  have h1: "globalTracer (init_world (\<lambda>a. svc_config)) = None \<or>
      Stopped (tracers (init_world (\<lambda>a. svc_config)) ! the (globalTracer (init_world (\<lambda>a. svc_config))))"
    by (simp add: init_world_def)
  have sw: "stopped_world ?X =
     \<lparr>configs = (\<lambda>a. svc_config), 
      tracers = [\<lparr>Config = 0, events = [], exceptions = [], stopped = Closed, running = Closed, task = AtDefer\<rparr>],
      globalTracer = Some 0, logs = [], posts = [(''http://example'', ''{}'')]\<rparr>"
    unfolding stopped_world_def ext_status_500_def created_world_eq
  by (simp add: model_defs)
  have h2: "globalTracer (stopped_world ?X) = None \<or>
      Stopped (tracers (stopped_world ?X) ! the (globalTracer (stopped_world ?X)))"
    by (simp add: sw Stopped_iff)
  show ?thesis
    using free_functions_noop [OF h1, of ?X 7 8] free_functions_noop [OF h2, of ?X 7 8]
    by (simp add: init_world_def sw)
qed

text \<open>An event or an exception handed to an instance whose goroutine is in the loop.\<close>

lemma AddEvent_live:
  assumes "globalTracer w = Some g" "g < length (tracers w)" "at_loop (tracers w ! g)"
    "stopped (tracers w ! g) = Open"
  shows "AddEvent X w e =
    Returns (debugln (Debug (config_of w g)) (DebugAddingEvent e)
              (upd_tracer g (\<lambda>t. t\<lparr>events := events t @ [e]\<rparr>) (await_select w g)))"
  using assms(1,4)
  by (simp add: AddEvent_def Stopped_iff tracer_AddEvent_def send_live [OF assms(2,3)]
        Run_select_event upd_tracer_config_of)

lemma AddException_live:
  assumes "globalTracer w = Some g" "g < length (tracers w)" "at_loop (tracers w ! g)"
    "stopped (tracers w ! g) = Open"
  shows "AddException X w x =
    Returns (upd_tracer g (\<lambda>t. t\<lparr>exceptions := exceptions t @ [x]\<rparr>) (await_select w g))"
  using assms(1,4)
  by (simp add: AddException_def Stopped_iff tracer_AddException_def send_live [OF assms(2,3)]
        Run_select_exception)

lemma AddEvent_during_flush:
  assumes "globalTracer w = Some g" "stopped (tracers w ! g) = Open" "task (tracers w ! g) = Flushing"
  shows "AddEvent X w e = Blocks w"
  using assms
  by (simp add: AddEvent_def Stopped_iff tracer_AddEvent_def send_def await_select_def)

subsection \<open>A second \<open>CreateTracer\<close>\<close>

text \<open>
  Claim C5, as the code has it. In every world that calling goroutines can bring about
  and whose global instance is not stopped, \<open>CreateTracer\<close> with any argument returns the
  same world with one line added to the log: \<open>globalTracer\<close>, every instance with its
  buffers and its goroutine, and every \<open>Config\<close> value (the argument's included) are as
  before, and no instance has been allocated. An event added afterwards is appended to
  the buffer of that same instance as long as its goroutine has not taken a stop command;
  once it has (the flush of a \<open>StopTracer\<close> is under way and \<open>stopped\<close> is still open)
  the send of \<open>AddEvent\<close> is never received: the call waits for ever and changes nothing.
\<close>

theorem CreateTracer_keeps_running_instance:
  assumes "conc_reachable X w" "globalTracer w = Some g" "\<not> Stopped (tracers w ! g)"
  shows "CreateTracer X w c = Returns (w\<lparr>logs := logs w @ [AlreadyCreated]\<rparr>) \<and>
         (task (tracers w ! g) \<noteq> Flushing \<longrightarrow>
            returns (AddEvent X (w\<lparr>logs := logs w @ [AlreadyCreated]\<rparr>) e) \<and>
            globalTracer (world_of (AddEvent X (w\<lparr>logs := logs w @ [AlreadyCreated]\<rparr>) e)) = Some g \<and>
            length (tracers (world_of (AddEvent X (w\<lparr>logs := logs w @ [AlreadyCreated]\<rparr>) e))) =
              length (tracers w) \<and>
            events (tracers (world_of (AddEvent X (w\<lparr>logs := logs w @ [AlreadyCreated]\<rparr>) e)) ! g) =
              events (tracers w ! g) @ [e]) \<and>
         (task (tracers w ! g) = Flushing \<longrightarrow>
            AddEvent X (w\<lparr>logs := logs w @ [AlreadyCreated]\<rparr>) e =
              Blocks (w\<lparr>logs := logs w @ [AlreadyCreated]\<rparr>))"
proof -
  have ok: "world_ok w" by (rule conc_reachable_world_ok [OF assms(1)])
  have g: "g < length (tracers w)" by (rule world_ok_global [OF ok assms(2)])
  have o: "stopped (tracers w ! g) = Open"
    using assms(3) by (cases "stopped (tracers w ! g)") (simp_all add: Stopped_iff)
  let ?w = "w\<lparr>logs := logs w @ [AlreadyCreated]\<rparr>"
  have c: "CreateTracer X w c = Returns ?w"
    using assms(2,3) by (simp add: CreateTracer_def println_def)
  have lands: "returns (AddEvent X ?w e) \<and>
      globalTracer (world_of (AddEvent X ?w e)) = Some g \<and>
      length (tracers (world_of (AddEvent X ?w e))) = length (tracers w) \<and>
      events (tracers (world_of (AddEvent X ?w e)) ! g) = events (tracers w ! g) @ [e]"
    if nf: "task (tracers w ! g) \<noteq> Flushing"
  proof -
    have al: "at_loop (tracers w ! g)" by (rule at_loopI [OF world_ok_nth [OF ok g] o nf])
    have l: "globalTracer ?w = Some g" "g < length (tracers ?w)" "at_loop (tracers ?w ! g)"
      "stopped (tracers ?w ! g) = Open"
      using assms(2) g al o by simp_all
    let ?w2 = "debugln (Debug (config_of ?w g)) (DebugAddingEvent e)
                (upd_tracer g (\<lambda>t. t\<lparr>events := events t @ [e]\<rparr>) (await_select ?w g))"
    have a: "AddEvent X ?w e = Returns ?w2" by (rule AddEvent_live [OF l])
    have "tracers ?w2 ! g =
        tracers (upd_tracer g (\<lambda>t. t\<lparr>events := events t @ [e]\<rparr>) (await_select ?w g)) ! g"
      by (simp only: debugln_fields)
    also have "\<dots> = (tracers ?w ! g)\<lparr>running := Closed, task := AtSelect,
                                        events := events (tracers ?w ! g) @ [e]\<rparr>"
      by (simp only: live_after_add [OF l(2,3)]) simp
    finally have ev: "events (tracers ?w2 ! g) = events (tracers w ! g) @ [e]" by simp
    have fr: "globalTracer ?w2 = Some g" "length (tracers ?w2) = length (tracers w)"
      using assms(2) by simp_all
    show ?thesis unfolding a using ev fr by simp
  qed
  have waits: "AddEvent X ?w e = Blocks ?w" if "task (tracers w ! g) = Flushing"
    by (rule AddEvent_during_flush) (use assms(2) o that in simp_all)
  show ?thesis using c lands waits by blast
qed

lemma created_world_500:
  "created_world ext_status_500 =
    \<lparr>configs = (\<lambda>a. svc_config),
     tracers = [\<lparr>Config = 0, events = [], exceptions = [], stopped = Open, running = Open, task = Spawned\<rparr>],
     globalTracer = Some 0, logs = [], posts = []\<rparr>"
  by (simp add: ext_status_500_def created_world_eq)

lemma flushing_world_500:
  "flushing_world ext_status_500 =
    \<lparr>configs = (\<lambda>a. svc_config),
     tracers = [\<lparr>Config = 0, events = [], exceptions = [], stopped = Open, running = Closed, task = Flushing\<rparr>],
     globalTracer = Some 0, logs = [], posts = []\<rparr>"
  unfolding flushing_world_def created_world_500
  by (simp add: model_defs)

lemma conc_reachable_flushing_500: "conc_reachable ext_status_500 (flushing_world ext_status_500)"
proof -
  let ?X = ext_status_500
  have "returns (send ?X (created_world ?X) 0 CloseCmd)"
    unfolding created_world_500 by (simp add: model_defs)
  from returns_eq [OF this]
  have s: "send ?X (created_world ?X) 0 CloseCmd = Returns (flushing_world ?X)"
    by (simp add: flushing_world_def)
  have g: "globalTracer (created_world ?X) = Some 0" "\<not> Stopped (tracers (created_world ?X) ! 0)"
    by (simp_all add: created_world_500 Stopped_iff)
  from conc_later [OF reachable_conc [OF reachable_created] stop_taken [OF g s]]
  show ?thesis .
qed

theorem CreateTracer_keeps_running_instance_witness:
  "CreateTracer ext_status_500 (created_world ext_status_500) (Some 1) =
     Returns ((created_world ext_status_500)\<lparr>logs := [AlreadyCreated]\<rparr>) \<and>
   returns (AddEvent ext_status_500 ((created_world ext_status_500)\<lparr>logs := [AlreadyCreated]\<rparr>) 7) \<and>
   globalTracer (world_of (AddEvent ext_status_500
       ((created_world ext_status_500)\<lparr>logs := [AlreadyCreated]\<rparr>) 7)) = Some 0 \<and>
   length (tracers (world_of (AddEvent ext_status_500
       ((created_world ext_status_500)\<lparr>logs := [AlreadyCreated]\<rparr>) 7))) = 1 \<and>
   events (tracers (world_of (AddEvent ext_status_500
       ((created_world ext_status_500)\<lparr>logs := [AlreadyCreated]\<rparr>) 7)) ! 0) = [7] \<and>
   CreateTracer ext_status_500 (flushing_world ext_status_500) (Some 1) =
     Returns ((flushing_world ext_status_500)\<lparr>logs := [AlreadyCreated]\<rparr>) \<and>
   AddEvent ext_status_500 ((flushing_world ext_status_500)\<lparr>logs := [AlreadyCreated]\<rparr>) 7 =
     Blocks ((flushing_world ext_status_500)\<lparr>logs := [AlreadyCreated]\<rparr>)"
proof -
  let ?X = ext_status_500
  have h1: "conc_reachable ?X (created_world ?X)" by (rule reachable_conc [OF reachable_created])
  have h2: "globalTracer (created_world ?X) = Some 0" by (simp add: created_world_500)
  have h3: "\<not> Stopped (tracers (created_world ?X) ! 0)"
    by (simp add: created_world_500 Stopped_iff)
  have k2: "globalTracer (flushing_world ?X) = Some 0" by (simp add: flushing_world_500)
  have k3: "\<not> Stopped (tracers (flushing_world ?X) ! 0)"
    by (simp add: flushing_world_500 Stopped_iff)
  have t: "task (tracers (created_world ?X) ! 0) = Spawned" "events (tracers (created_world ?X) ! 0) = []"
    "length (tracers (created_world ?X)) = 1" "logs (created_world ?X) = []"
    "task (tracers (flushing_world ?X) ! 0) = Flushing" "logs (flushing_world ?X) = []"
    by (simp_all add: created_world_500 flushing_world_500)
  show ?thesis
    using CreateTracer_keeps_running_instance [OF h1 h2 h3, of "Some 1" 7]
      CreateTracer_keeps_running_instance [OF conc_reachable_flushing_500 k2 k3, of "Some 1" 7]
    by (simp add: t)
qed

text \<open>
  The claim C5 as stated fails while a \<open>StopTracer\<close> of another goroutine is being
  served: the goroutine of the instance has taken the stop command and has not yet closed
  \<open>stopped\<close>. The global instance is not stopped and \<open>CreateTracer\<close> returns with its
  message, leaving it in place, but the event sent afterwards is never received: the call
  waits for ever and the buffer stays empty.
\<close>

theorem AddEvent_waits_during_flush:
  "conc_reachable ext_status_500 (flushing_world ext_status_500) \<and>
   globalTracer (flushing_world ext_status_500) = Some 0 \<and>
   \<not> Stopped (tracers (flushing_world ext_status_500) ! 0) \<and>
   CreateTracer ext_status_500 (flushing_world ext_status_500) (Some 1) =
     Returns ((flushing_world ext_status_500)\<lparr>logs := [AlreadyCreated]\<rparr>) \<and>
   blocks (AddEvent ext_status_500 ((flushing_world ext_status_500)\<lparr>logs := [AlreadyCreated]\<rparr>) 7) \<and>
   events (tracers (world_of
     (AddEvent ext_status_500 ((flushing_world ext_status_500)\<lparr>logs := [AlreadyCreated]\<rparr>) 7)) ! 0) = []"
proof -
  have "globalTracer (flushing_world ext_status_500) = Some 0 \<and>
   \<not> Stopped (tracers (flushing_world ext_status_500) ! 0) \<and>
   CreateTracer ext_status_500 (flushing_world ext_status_500) (Some 1) =
     Returns ((flushing_world ext_status_500)\<lparr>logs := [AlreadyCreated]\<rparr>) \<and>
   blocks (AddEvent ext_status_500 ((flushing_world ext_status_500)\<lparr>logs := [AlreadyCreated]\<rparr>) 7) \<and>
   events (tracers (world_of
     (AddEvent ext_status_500 ((flushing_world ext_status_500)\<lparr>logs := [AlreadyCreated]\<rparr>) 7)) ! 0) = []"
    unfolding flushing_world_500 by (simp add: model_defs)
  with conc_reachable_flushing_500 show ?thesis by simp
qed

subsection \<open>\<open>Running\<close> and \<open>Stopped\<close> along the life of an instance\<close>


lemma stopped_world_500:
  "stopped_world ext_status_500 =
     \<lparr>configs = (\<lambda>a. svc_config),
      tracers = [\<lparr>Config = 0, events = [], exceptions = [], stopped = Closed, running = Closed, task = AtDefer\<rparr>],
      globalTracer = Some 0, logs = [], posts = [(''http://example'', ''{}'')]\<rparr>"
  unfolding stopped_world_def ext_status_500_def created_world_eq
  by (simp add: model_defs)

lemma finished_world_500:
  "finished_world ext_status_500 =
     \<lparr>configs = (\<lambda>a. svc_config),
      tracers = [\<lparr>Config = 0, events = [], exceptions = [], stopped = Closed, running = Open, task = Finished\<rparr>],
      globalTracer = Some 0, logs = [], posts = [(''http://example'', ''{}'')]\<rparr>"
  by (simp add: finished_world_def stopped_world_500 goroutine_step_def Run_exit_def upd_tracer_def)

lemma step_finished_500:
  "step ext_status_500 (stopped_world ext_status_500) (finished_world ext_status_500)"
proof (rule goroutine [where i = 0])
  show "0 < length (tracers (stopped_world ext_status_500))" by (simp add: stopped_world_500)
  show "goroutine_step ext_status_500 (stopped_world ext_status_500) 0 =
      (finished_world ext_status_500, False)"
    by (simp add: finished_world_def stopped_world_500 goroutine_step_def)
qed




subsection \<open>The caller's \<open>Config\<close> after \<open>CreateTracer\<close>\<close>

text \<open>
  Claim C10. When there is no global instance, or a stopped one, \<open>CreateTracer\<close> with the
  address \<open>a\<close> returns; the store then holds at \<open>a\<close> the configuration with its defaults
  filled in (token, collector URL and debug flag as the rules give them) and is unchanged
  elsewhere; the new instance is the global one and its \<open>Config\<close> is the address \<open>a\<close>
  itself, so it reads whatever is stored there, also what the caller writes later.
\<close>

theorem CreateTracer_fills_callers_config:
  assumes "globalTracer w = None \<or> Stopped (tracers w ! the (globalTracer w))"
  shows "returns (CreateTracer X w (Some a)) \<and>
    configs (world_of (CreateTracer X w (Some a))) =
      (configs w)(a := fst (fillConfigDefaults (Getenv X) (configs w a))) \<and>
    Token (configs (world_of (CreateTracer X w (Some a))) a) =
      (if Token (configs w a) = [] then Getenv X ''EPSAGON_TOKEN'' else Token (configs w a)) \<and>
    CollectorURL (configs (world_of (CreateTracer X w (Some a))) a) =
      (if CollectorURL (configs w a) \<noteq> [] then CollectorURL (configs w a)
       else if Getenv X ''AWS_REGION'' \<noteq> [] then ''http://'' @ Getenv X ''AWS_REGION'' @ ''.tc.epsagon.com''
       else ''http://us-east-1.tc.epsagon.com'') \<and>
    Debug (configs (world_of (CreateTracer X w (Some a))) a) =
      (Debug (configs w a) \<or> Getenv X ''EPSAGON_DEBUG'' = ''TRUE'') \<and>
    globalTracer (world_of (CreateTracer X w (Some a))) = Some (length (tracers w)) \<and>
    Config (tracers (world_of (CreateTracer X w (Some a))) ! length (tracers w)) = a \<and>
    config_of (world_of (CreateTracer X w (Some a))) (length (tracers w)) =
      configs (world_of (CreateTracer X w (Some a))) a \<and>
    config_of ((world_of (CreateTracer X w (Some a)))
                 \<lparr>configs := (configs (world_of (CreateTracer X w (Some a))))(a := c)\<rparr>)
              (length (tracers w)) = c"
proof -
  obtain c' ls where f: "fillConfigDefaults (Getenv X) (configs w a) = (c', ls)"
    by (cases "fillConfigDefaults (Getenv X) (configs w a)")
  have c': "c' = fst (fillConfigDefaults (Getenv X) (configs w a))" by (simp add: f)
  let ?w2 = "w\<lparr>configs := (configs w)(a := c'), logs := logs w @ ls,
               tracers := tracers w @ [\<lparr>Config = a, events = [], exceptions = [],
                          stopped = Open, running = Open, task = Spawned\<rparr>],
               globalTracer := Some (length (tracers w))\<rparr>"
  have r: "CreateTracer X w (Some a) = Returns (debugln (Debug c') DebugCreated ?w2)"
    using assms f by (auto simp: CreateTracer_def Let_def)
  have fields: "Token c' = (if Token (configs w a) = [] then Getenv X ''EPSAGON_TOKEN'' else Token (configs w a))"
    "CollectorURL c' = (if CollectorURL (configs w a) \<noteq> [] then CollectorURL (configs w a)
       else if Getenv X ''AWS_REGION'' \<noteq> [] then ''http://'' @ Getenv X ''AWS_REGION'' @ ''.tc.epsagon.com''
       else ''http://us-east-1.tc.epsagon.com'')"
    "Debug c' = (Debug (configs w a) \<or> Getenv X ''EPSAGON_DEBUG'' = ''TRUE'')"
    unfolding c' by (simp_all add: fillConfigDefaults_def Let_def)
  show ?thesis
    unfolding r using fields c' by (simp add: config_of_def)
qed

theorem CreateTracer_fills_callers_config_witness:
  "returns (CreateTracer ext_status_500 (init_world (\<lambda>a. empty_config)) (Some 3)) \<and>
   Token (configs (world_of (CreateTracer ext_status_500 (init_world (\<lambda>a. empty_config)) (Some 3))) 3) = [] \<and>
   CollectorURL (configs (world_of (CreateTracer ext_status_500 (init_world (\<lambda>a. empty_config)) (Some 3))) 3) =
     ''http://us-east-1.tc.epsagon.com'' \<and>
   CollectorURL (configs (world_of (CreateTracer ext_status_500 (init_world (\<lambda>a. empty_config)) (Some 3))) 4) = [] \<and>
   globalTracer (world_of (CreateTracer ext_status_500 (init_world (\<lambda>a. empty_config)) (Some 3))) = Some 0 \<and>
   Config (tracers (world_of (CreateTracer ext_status_500 (init_world (\<lambda>a. empty_config)) (Some 3))) ! 0) = 3"
proof -
  have h: "globalTracer (init_world (\<lambda>a. empty_config)) = None \<or>
      Stopped (tracers (init_world (\<lambda>a. empty_config)) ! the (globalTracer (init_world (\<lambda>a. empty_config))))"
    by (simp add: init_world_def)
  have i: "tracers (init_world (\<lambda>a. empty_config)) = []" "configs (init_world (\<lambda>a. empty_config)) = (\<lambda>a. empty_config)"
    by (simp_all add: init_world_def)
  show ?thesis
    using CreateTracer_fills_callers_config [OF h, of ext_status_500 3 empty_config]
    by (simp add: init_world_def ext_status_500_def ext_with_def empty_config_def CreateTracer_def
          fillConfigDefaults_def Let_def debugln_def println_def config_of_def)
qed

subsection \<open>A stopped instance stays stopped\<close>

lemma keeps_stopped_same: "tracers w' = tracers w \<Longrightarrow> keeps_stopped w w'"
  by (simp add: keeps_stopped_def)

lemma keeps_stopped_trans: "keeps_stopped w w' \<Longrightarrow> keeps_stopped w' w'' \<Longrightarrow> keeps_stopped w w''"
  by (auto simp: keeps_stopped_def)

lemma keeps_stopped_update:
  assumes "tracers w' = (tracers w)[i := t]"
    and "stopped (tracers w ! i) = Closed \<Longrightarrow> stopped t = Closed"
  shows "keeps_stopped w w'"
proof -
  have "stopped (tracers w' ! j) = Closed"
    if "j < length (tracers w)" "stopped (tracers w ! j) = Closed" for j
    using that assms by (cases "j = i") simp_all
  then show ?thesis using assms(1) by (simp add: keeps_stopped_def)
qed

lemma await_select_keeps_stopped: "keeps_stopped w (await_select w i)"
proof (cases "task (tracers w ! i) = Spawned")
  case True
  have "keeps_stopped w (Run_enter w i)"
    by (rule keeps_stopped_update [OF Run_enter_fields(1)]) simp
  with True show ?thesis by (simp add: await_select_def)
next
  case False
  then show ?thesis by (simp add: await_select_def keeps_stopped_same)
qed

lemma send_keeps_stopped:
  assumes "send X w i m = Returns w'"
  shows "keeps_stopped w w'"
proof -
  have "tracers w' = (tracers (await_select w i))[i :=
     (case m of EventMsg e \<Rightarrow> (tracers (await_select w i) ! i)\<lparr>events := events (tracers (await_select w i) ! i) @ [e]\<rparr>
      | ExceptionMsg x \<Rightarrow> (tracers (await_select w i) ! i)\<lparr>exceptions := exceptions (tracers (await_select w i) ! i) @ [x]\<rparr>
      | CloseCmd \<Rightarrow> (tracers (await_select w i) ! i)\<lparr>task := Flushing\<rparr>)]"
    by (simp only: send_Returns(2) [OF assms] Run_select_tracers)
  then have "keeps_stopped (await_select w i) w'"
    by (rule keeps_stopped_update) (cases m; simp)
  with await_select_keeps_stopped [of w i] show ?thesis by (rule keeps_stopped_trans)
qed

lemma Run_flush_keeps_stopped:
  assumes "Run_flush X w i = (w', p)" "i < length (tracers w)"
  shows "keeps_stopped w w'"
  by (rule keeps_stopped_update [OF Run_flush_frame(3) [OF assms]]) simp

lemma await_stopped_keeps_stopped:
  assumes "await_stopped X w i = Returns w'" "i < length (tracers w)"
  shows "keeps_stopped w w'"
proof (cases "stopped (tracers w ! i) = Closed")
  case True
  with assms(1) show ?thesis by (simp add: await_stopped_def keeps_stopped_same)
next
  case False
  with assms(1) have "Run_flush X w i = (w', False)"
    by (auto simp: await_stopped_def split: if_splits prod.splits)
  from Run_flush_keeps_stopped [OF this assms(2)] show ?thesis .
qed

lemma await_stopped_Returns:
  assumes "await_stopped X w i = Returns w'"
  shows "stopped (tracers w' ! i) = Closed"
  using assms by (auto simp: await_stopped_def split: if_splits prod.splits)

lemma tracer_Stop_keeps_stopped:
  assumes "tracer_Stop X w i = Returns w'" "i < length (tracers w)"
  shows "keeps_stopped w w'"
proof (cases "stopped (tracers w ! i)")
  case Closed
  with assms(1) show ?thesis by (simp add: tracer_Stop_def keeps_stopped_same)
next
  case Open
  with assms(1) obtain w1 where s: "send X w i CloseCmd = Returns w1"
    and a: "await_stopped X w1 i = Returns w'"
    by (auto simp: tracer_Stop_def split: outcome.splits)
  have "i < length (tracers w1)" using send_length [OF s] assms(2) by simp
  from keeps_stopped_trans [OF send_keeps_stopped [OF s] await_stopped_keeps_stopped [OF a this]]
  show ?thesis .
qed

lemma tracer_AddEvent_keeps_stopped:
  assumes "tracer_AddEvent X w i e = Returns w'" "i < length (tracers w)"
  shows "keeps_stopped w w'"
proof -
  from assms(1) obtain w1 where s: "send X w i (EventMsg e) = Returns w1"
    and w': "w' = debugln (Debug (config_of w1 i)) (DebugAddingEvent e) w1"
    by (auto simp: tracer_AddEvent_def split: outcome.splits)
  have "keeps_stopped w1 w'" using w' by (simp add: keeps_stopped_same)
  with send_keeps_stopped [OF s] show ?thesis by (rule keeps_stopped_trans)
qed

lemma CreateTracer_keeps_stopped:
  assumes "CreateTracer X w c = Returns w'"
  shows "keeps_stopped w w'"
proof (cases "globalTracer w \<noteq> None \<and> \<not> Stopped (tracers w ! the (globalTracer w))")
  case True
  with assms show ?thesis by (auto simp: CreateTracer_def intro: keeps_stopped_same)
next
  case False
  with assms obtain t where "tracers w' = tracers w @ [t]"
    by (auto simp: CreateTracer_def Let_def split: option.splits prod.splits)
  then show ?thesis by (simp add: keeps_stopped_def nth_append)
qed

lemma goroutine_step_keeps_stopped:
  assumes "goroutine_step X w i = (w', p)" "i < length (tracers w)"
  shows "keeps_stopped w w'"
proof (cases "task (tracers w ! i)")
  case Spawned
  with assms(1) have "w' = await_select w i"
    by (simp add: goroutine_step_def await_select_def)
  then show ?thesis by (simp add: await_select_keeps_stopped)
next
  case AtSelect
  with assms(1) show ?thesis by (simp add: goroutine_step_def keeps_stopped_same)
next
  case Flushing
  with assms(1) have "Run_flush X w i = (w', p)" by (simp add: goroutine_step_def)
  from Run_flush_keeps_stopped [OF this assms(2)] show ?thesis .
next
  case AtDefer
  have "keeps_stopped w (Run_exit w i)"
    by (rule keeps_stopped_update [OF Run_exit_fields(1)]) simp
  with AtDefer assms(1) show ?thesis by (simp add: goroutine_step_def)
next
  case Finished
  with assms(1) show ?thesis by (simp add: goroutine_step_def keeps_stopped_same)
qed

lemma step_keeps_stopped:
  assumes "step X w w'" "world_ok w"
  shows "keeps_stopped w w'"
  using assms(1)
proof (cases rule: step.cases)
  case (goroutine i)
  then show ?thesis using goroutine_step_keeps_stopped by blast
next
  case (caller_write cs)
  then show ?thesis by (simp add: keeps_stopped_same)
next
  case (create c)
  then show ?thesis by (simp add: CreateTracer_keeps_stopped)
next
  case (add_event e)
  then show ?thesis using assms(2)
    by (auto simp: AddEvent_def split: if_splits
        intro: keeps_stopped_same tracer_AddEvent_keeps_stopped world_ok_global)
next
  case (add_exception x)
  then show ?thesis using assms(2)
    by (auto simp: AddException_def tracer_AddException_def split: if_splits
        intro: keeps_stopped_same send_keeps_stopped world_ok_global)
next
  case stop
  then show ?thesis using assms(2)
    by (auto simp: StopTracer_def split: if_splits
        intro: keeps_stopped_same tracer_Stop_keeps_stopped world_ok_global)
qed

lemma steps_keep_stopped:
  assumes "(step X)\<^sup>*\<^sup>* w w'" "world_ok w"
  shows "world_ok w' \<and> keeps_stopped w w'"
  using assms
proof (induction rule: rtranclp_induct)
  case base
  then show ?case by (simp add: keeps_stopped_same)
next
  case (step y z)
  then show ?case
    by (blast intro: step_world_ok step_keeps_stopped keeps_stopped_trans)
qed

text \<open>
  Claim C4. Once a call of \<open>Stop\<close> on an instance has returned, then whatever happens
  next (steps of goroutines, writes of the caller, calls that return), a further \<open>Stop\<close>
  on that instance returns at once and leaves the world as it is: nothing is serialised,
  logged or sent. \<open>StopTracer\<close>, when the instance is still the global one, only logs its
  warning.
\<close>

theorem Stop_idempotent:
  assumes "reachable X w" "i < length (tracers w)" "tracer_Stop X w i = Returns w1"
    and "(step X)\<^sup>*\<^sup>* w1 w2"
  shows "tracer_Stop X w2 i = Returns w2 \<and>
         (globalTracer w2 = Some i \<longrightarrow> StopTracer X w2 = Returns (w2\<lparr>logs := logs w2 @ [NotInitialized]\<rparr>))"
proof -
  have ok: "world_ok w" by (rule reachable_world_ok [OF assms(1)])
  have ok1: "world_ok w1" by (rule tracer_Stop_world_ok [OF ok assms(2,3)])
  have k1: "keeps_stopped w w1" by (rule tracer_Stop_keeps_stopped [OF assms(3,2)])
  have c1: "stopped (tracers w1 ! i) = Closed"
    using assms(3)
    by (auto simp: tracer_Stop_def split: sigchan.splits outcome.splits
             dest: await_stopped_Returns)
  from k1 assms(2) have l1: "i < length (tracers w1)" by (simp add: keeps_stopped_def)
  from steps_keep_stopped [OF assms(4) ok1] l1 c1
  have c2: "stopped (tracers w2 ! i) = Closed" by (simp add: keeps_stopped_def)
  then show ?thesis
    by (simp add: tracer_Stop_def StopTracer_def Stopped_iff println_def)
qed

theorem Stop_idempotent_witness:
  "tracer_Stop ext_status_500 (finished_world ext_status_500) 0 = Returns (finished_world ext_status_500) \<and>
   StopTracer ext_status_500 (finished_world ext_status_500) =
     Returns ((finished_world ext_status_500)\<lparr>logs := [NotInitialized]\<rparr>) \<and>
   posts (finished_world ext_status_500) = [(''http://example'', ''{}'')]"
proof -
  let ?X = ext_status_500
  have h2: "0 < length (tracers (created_world ?X))" by (simp add: created_world_500)
  have "returns (tracer_Stop ?X (created_world ?X) 0)"
    unfolding created_world_500 by (simp add: ext_status_500_def model_defs)
  moreover have "world_of (tracer_Stop ?X (created_world ?X) 0) = stopped_world ?X"
    unfolding created_world_500 stopped_world_500 by (simp add: ext_status_500_def model_defs)
  ultimately have h3: "tracer_Stop ?X (created_world ?X) 0 = Returns (stopped_world ?X)"
    using returns_eq by fastforce
  have "step ?X (stopped_world ?X) (finished_world ?X)" by (rule step_finished_500)
  then have h4: "(step ?X)\<^sup>*\<^sup>* (stopped_world ?X) (finished_world ?X)" by (rule r_into_rtranclp)
  have f: "globalTracer (finished_world ?X) = Some 0" "logs (finished_world ?X) = []"
    "posts (finished_world ?X) = [(''http://example'', ''{}'')]"
    by (simp_all add: finished_world_500)
  show ?thesis
    using Stop_idempotent [OF reachable_created h2 h3 h4] f by simp
qed

lemma AddEvent_live_effect:
  assumes "globalTracer w = Some g" "g < length (tracers w)" "at_loop (tracers w ! g)"
    "stopped (tracers w ! g) = Open"
  obtains w' where "AddEvent X w e = Returns w'" "globalTracer w' = Some g"
    "length (tracers w') = length (tracers w)"
    "tracers w' ! g = (tracers w ! g)\<lparr>running := Closed, task := AtSelect,
                                      events := events (tracers w ! g) @ [e]\<rparr>"
    "configs w' = configs w" "posts w' = posts w"
proof -
  let ?w' = "debugln (Debug (config_of w g)) (DebugAddingEvent e)
              (upd_tracer g (\<lambda>t. t\<lparr>events := events t @ [e]\<rparr>) (await_select w g))"
  have a: "AddEvent X w e = Returns ?w'" by (rule AddEvent_live [OF assms])
  have "tracers ?w' ! g =
      tracers (upd_tracer g (\<lambda>t. t\<lparr>events := events t @ [e]\<rparr>) (await_select w g)) ! g"
    by (simp only: debugln_fields)
  also have "\<dots> = (tracers w ! g)\<lparr>running := Closed, task := AtSelect,
                                      events := events (tracers w ! g) @ [e]\<rparr>"
    by (simp only: live_after_add [OF assms(2,3)]) simp
  finally have t: "tracers ?w' ! g = (tracers w ! g)\<lparr>running := Closed, task := AtSelect,
                                      events := events (tracers w ! g) @ [e]\<rparr>" .
  show thesis
    by (rule that [OF a _ _ t]) (simp_all add: assms(1))
qed

lemma AddException_live_effect:
  assumes "globalTracer w = Some g" "g < length (tracers w)" "at_loop (tracers w ! g)"
    "stopped (tracers w ! g) = Open"
  obtains w' where "AddException X w x = Returns w'" "globalTracer w' = Some g"
    "length (tracers w') = length (tracers w)"
    "tracers w' ! g = (tracers w ! g)\<lparr>running := Closed, task := AtSelect,
                                      exceptions := exceptions (tracers w ! g) @ [x]\<rparr>"
    "configs w' = configs w" "posts w' = posts w"
proof -
  let ?w' = "upd_tracer g (\<lambda>t. t\<lparr>exceptions := exceptions t @ [x]\<rparr>) (await_select w g)"
  have a: "AddException X w x = Returns ?w'" by (rule AddException_live [OF assms])
  have t: "tracers ?w' ! g = (tracers w ! g)\<lparr>running := Closed, task := AtSelect,
                                      exceptions := exceptions (tracers w ! g) @ [x]\<rparr>"
    by (simp only: live_after_add [OF assms(2,3)]) simp
  show thesis
    by (rule that [OF a _ _ t]) (simp_all add: assms(1))
qed

lemma StopTracer_live_posts:
  assumes "globalTracer w = Some g" "g < length (tracers w)" "at_loop (tracers w ! g)"
    "stopped (tracers w ! g) = Open"
    and "MarshalToString X (trace_of X w g) = Inr js"
  shows "posts (world_of (StopTracer X w)) = posts w @ [(CollectorURL (config_of w g), js)]"
    and "returns (StopTracer X w) \<or> panics (StopTracer X w)"
proof -
  have ns: "\<not> Stopped (tracers w ! g)" using assms(4) by (simp add: Stopped_iff)
  have m: "MarshalToString X (trace_of X (flush_world w g) g) = Inr js" by (simp add: assms(5))
  obtain resp err where p: "Post X (CollectorURL (config_of w g)) js = (resp, err)"
    by (cases "Post X (CollectorURL (config_of w g)) js")
  have "posts (world_of (StopTracer X w)) = posts w @ [(CollectorURL (config_of w g), js)] \<and>
        (returns (StopTracer X w) \<or> panics (StopTracer X w))"
    using p
    by (cases resp; cases err)
       (simp_all add: StopTracer_live [OF assms(1) ns] tracer_Stop_live [OF assms(2,3,4)]
          sendTraces_posted [OF m])
  then show "posts (world_of (StopTracer X w)) = posts w @ [(CollectorURL (config_of w g), js)]"
    and "returns (StopTracer X w) \<or> panics (StopTracer X w)" by simp_all
qed

subsection \<open>The scenario of one session\<close>

text \<open>
  Claim C1. Start where there is no global instance (or a stopped one), with the caller's
  configuration naming the application \<open>svc\<close>, the token \<open>t1\<close> and the collector
  \<open>http://example\<close>, and let the marshaler accept the trace. Then the calls
  \<open>CreateTracer\<close>, \<open>AddEvent(e1)\<close>, \<open>AddEvent(e2)\<close>, \<open>AddException(x1)\<close>, \<open>StopTracer\<close>
  are all made, none waits for ever, and they add exactly one HTTP request: to
  \<open>http://example\<close>, its body the serialised trace with application \<open>svc\<close>, token
  \<open>t1\<close>, events \<open>[e1, e2]\<close> and exceptions \<open>[x1]\<close>.
\<close>

theorem scenario_one_post:
  assumes "globalTracer w = None \<or> Stopped (tracers w ! the (globalTracer w))"
    and "configs w a = \<lparr>ApplicationName = ''svc'', Token = ''t1'', CollectorURL = ''http://example'',
                         MetadataOnly = mo, Debug = d\<rparr>"
    and "MarshalToString X \<lparr>AppName = ''svc'', TraceToken = ''t1'', Events = [e1, e2],
                             Exceptions = [x1], Version = ''0.0.1'', Platform = RuntimeVersion X\<rparr> = Inr js"
  shows "posts (world_of (scenario X w a e1 e2 x1)) = posts w @ [(''http://example'', js)] \<and>
         (returns (scenario X w a e1 e2 x1) \<or> panics (scenario X w a e1 e2 x1))"
proof -
  let ?g = "length (tracers w)"
  let ?d = "d \<or> Getenv X ''EPSAGON_DEBUG'' = ''TRUE''"
  let ?c = "\<lparr>ApplicationName = ''svc'', Token = ''t1'', CollectorURL = ''http://example'',
             MetadataOnly = mo, Debug = ?d\<rparr>"
  let ?t0 = "\<lparr>Config = a, events = [], exceptions = [], stopped = Open, running = Open, task = Spawned\<rparr>"
  have f: "fillConfigDefaults (Getenv X) (configs w a) = (?c, [])"
    by (simp add: assms(2) fillConfigDefaults_def Let_def)
  define w1 where "w1 = debugln ?d DebugCreated
      (w\<lparr>configs := (configs w)(a := ?c), logs := logs w @ [],
         tracers := tracers w @ [?t0], globalTracer := Some ?g\<rparr>)"
  have c: "CreateTracer X w (Some a) = Returns w1"
    using assms(1) f by (auto simp: CreateTracer_def w1_def Let_def)
  have p1: "globalTracer w1 = Some ?g" "length (tracers w1) = Suc ?g" "tracers w1 ! ?g = ?t0"
    "configs w1 a = ?c" "posts w1 = posts w"
    by (simp_all add: w1_def)
  have l1: "?g < length (tracers w1)" "at_loop (tracers w1 ! ?g)" "stopped (tracers w1 ! ?g) = Open"
    by (simp_all add: p1 at_loop_def)
  obtain w2 where s2: "AddEvent X w1 e1 = Returns w2" and p2: "globalTracer w2 = Some ?g"
    "length (tracers w2) = length (tracers w1)"
    "tracers w2 ! ?g = (tracers w1 ! ?g)\<lparr>running := Closed, task := AtSelect,
                                      events := events (tracers w1 ! ?g) @ [e1]\<rparr>"
    "configs w2 = configs w1" "posts w2 = posts w1"
    by (rule AddEvent_live_effect [OF p1(1) l1])
  have l2: "?g < length (tracers w2)" "at_loop (tracers w2 ! ?g)" "stopped (tracers w2 ! ?g) = Open"
    by (simp_all add: p2 p1 at_loop_def)
  obtain w3 where s3: "AddEvent X w2 e2 = Returns w3" and p3: "globalTracer w3 = Some ?g"
    "length (tracers w3) = length (tracers w2)"
    "tracers w3 ! ?g = (tracers w2 ! ?g)\<lparr>running := Closed, task := AtSelect,
                                      events := events (tracers w2 ! ?g) @ [e2]\<rparr>"
    "configs w3 = configs w2" "posts w3 = posts w2"
    by (rule AddEvent_live_effect [OF p2(1) l2])
  have l3: "?g < length (tracers w3)" "at_loop (tracers w3 ! ?g)" "stopped (tracers w3 ! ?g) = Open"
    by (simp_all add: p3 p2 p1 at_loop_def)
  obtain w4 where s4: "AddException X w3 x1 = Returns w4" and p4: "globalTracer w4 = Some ?g"
    "length (tracers w4) = length (tracers w3)"
    "tracers w4 ! ?g = (tracers w3 ! ?g)\<lparr>running := Closed, task := AtSelect,
                                      exceptions := exceptions (tracers w3 ! ?g) @ [x1]\<rparr>"
    "configs w4 = configs w3" "posts w4 = posts w3"
    by (rule AddException_live_effect [OF p3(1) l3])
  have l4: "?g < length (tracers w4)" "at_loop (tracers w4 ! ?g)" "stopped (tracers w4 ! ?g) = Open"
    by (simp_all add: p4 p3 p2 p1 at_loop_def)
  have cfg: "config_of w4 ?g = ?c"
    by (simp add: config_of_def p4 p3 p2 p1)
  have tr: "trace_of X w4 ?g = \<lparr>AppName = ''svc'', TraceToken = ''t1'', Events = [e1, e2],
                             Exceptions = [x1], Version = ''0.0.1'', Platform = RuntimeVersion X\<rparr>"
    by (simp add: trace_of_def cfg) (simp add: p4 p3 p2 p1)
  have m: "MarshalToString X (trace_of X w4 ?g) = Inr js" by (simp add: tr assms(3))
  have sc: "scenario X w a e1 e2 x1 = StopTracer X w4"
    by (simp add: scenario_def andThen_def c s2 s3 s4)
  show ?thesis
    using StopTracer_live_posts [OF p4(1) l4 m]
    by (simp add: sc cfg p4 p3 p2 p1)
qed

theorem scenario_one_post_witness:
  "posts (world_of (scenario ext_ok (init_world (\<lambda>a. svc_config)) 0 11 12 21)) = [(''http://example'', ''{}'')] \<and>
   returns (scenario ext_ok (init_world (\<lambda>a. svc_config)) 0 11 12 21) \<and>
   events (tracers (world_of (scenario ext_ok (init_world (\<lambda>a. svc_config)) 0 11 12 21)) ! 0) = [11, 12] \<and>
   exceptions (tracers (world_of (scenario ext_ok (init_world (\<lambda>a. svc_config)) 0 11 12 21)) ! 0) = [21]"
proof -
  have h1: "globalTracer (init_world (\<lambda>a. svc_config)) = None \<or>
      Stopped (tracers (init_world (\<lambda>a. svc_config)) ! the (globalTracer (init_world (\<lambda>a. svc_config))))"
    by (simp add: init_world_def)
  have h2: "configs (init_world (\<lambda>a. svc_config)) 0 =
      \<lparr>ApplicationName = ''svc'', Token = ''t1'', CollectorURL = ''http://example'',
       MetadataOnly = False, Debug = False\<rparr>"
    by (simp add: init_world_def svc_config_def)
  have h3: "MarshalToString ext_ok \<lparr>AppName = ''svc'', TraceToken = ''t1'', Events = [11, 12],
      Exceptions = [21], Version = ''0.0.1'', Platform = RuntimeVersion ext_ok\<rparr> = Inr ''{}''"
    by (simp add: ext_ok_def ext_with_sel marshal_ok_def)
  have ev: "returns (scenario ext_ok (init_world (\<lambda>a. svc_config)) 0 11 12 21) \<and>
    events (tracers (world_of (scenario ext_ok (init_world (\<lambda>a. svc_config)) 0 11 12 21)) ! 0) = [11, 12] \<and>
    exceptions (tracers (world_of (scenario ext_ok (init_world (\<lambda>a. svc_config)) 0 11 12 21)) ! 0) = [21]"
    by (simp add: scenario_def ext_ok_def model_defs)
  show ?thesis
    using scenario_one_post [OF h1 h2 h3] ev by (simp add: init_world_def)
qed

end
